theory Spec2Isabelle
  imports Complex_Main "HOL-Library.Sublist"
begin

section \<open>The fetcher (nyc311\_api.py)\<close>

subsection \<open>Constants\<close>

definition MAX_LIMIT :: int where
  "MAX_LIMIT = 50000"

definition MAX_RETRIES :: nat where
  "MAX_RETRIES = 3"

definition RETRY_DELAY :: nat where
  "RETRY_DELAY = 2"

subsection \<open>Requests, responses and the observable effects\<close>

text \<open>
  The Python exceptions of the model. In the fetcher \<open>ValueError\<close> is the one raised by
  the check of \<open>limit\<close>; \<open>HTTPError s\<close> is what \<open>raise_for_status\<close> raises for the
  status \<open>s\<close>; \<open>RequestException\<close> stands for every other error of the HTTP library
  (it is neither a read timeout nor a connection error). \<open>TypeError\<close> occurs in the
  cleaner only.
\<close>

datatype exn =
  ValueError | TypeError | ReadTimeout | ConnectionError | HTTPError nat | RequestException

text \<open>
  What one call of \<open>session.get\<close> does, after the transport layer has done its own
  retries: it raises a read timeout, raises a connection error, raises something else,
  or returns a response with a status code and a JSON array of rows.
\<close>

datatype 'r outcome = TimesOut | ConnectionFails | OtherFailure | Response nat "'r list"

text \<open>
  The query parameters of \<open>_build_params\<close>. \<open>$order\<close> is the constant
  \<open>created_date\<close> and \<open>$where\<close> is a function of the year alone, so the year stands for
  both.
\<close>

record params =
  p_limit :: int
  p_offset :: int
  p_year :: int

record request =
  rq_params :: params
  rq_headers :: "(string \<times> string) list"

text \<open>
  The remote source: the outcome of the \<open>n\<close>-th call of \<open>session.get\<close> of a fetch
  (counted from 0), given the request it receives.
\<close>

type_synonym 'r network = "nat \<Rightarrow> request \<Rightarrow> 'r outcome"

text \<open>
  The effects of a fetch that a caller can observe: the requests sent (oldest first), the
  arguments of \<open>time.sleep\<close> (oldest first), and whether the session was closed.
  Printing is not modelled.
\<close>

record world =
  requests :: "request list"
  sleeps :: "nat list"
  closed :: bool

definition init_world :: world where
  "init_world = \<lparr>requests = [], sleeps = [], closed = False\<rparr>"

definition build_params :: "int \<Rightarrow> int \<Rightarrow> int \<Rightarrow> params" where
  "build_params year limit offset = \<lparr>p_limit = limit, p_offset = offset, p_year = year\<rparr>"

subsection \<open>\_fetch\_page\<close>

text \<open>
  \<open>raise_for_status\<close> raises for the statuses 400 to 599.
\<close>

definition is_error_status :: "nat \<Rightarrow> bool" where
  "is_error_status s = (400 \<le> s \<and> s < 600)"

text \<open>
  The body of the \<open>for attempt in range(MAX_RETRIES)\<close> loop, over the attempts still to
  make. A loop that runs out of attempts falls off the end of the function, which returns
  \<open>None\<close> in Python: the result \<open>Inr None\<close>.
\<close>

fun fetch_page_attempts ::
  "'r network \<Rightarrow> request \<Rightarrow> nat list \<Rightarrow> world \<Rightarrow> world \<times> (exn + 'r list option)" where
  "fetch_page_attempts net rq [] w = (w, Inr None)"
| "fetch_page_attempts net rq (attempt # rest) w =
     (let w1 = w\<lparr>requests := requests w @ [rq]\<rparr> in
      case net (length (requests w)) rq of
        Response status body \<Rightarrow>
          if is_error_status status then (w1, Inl (HTTPError status))
          else (w1, Inr (Some body))
      | OtherFailure \<Rightarrow> (w1, Inl RequestException)
      | TimesOut \<Rightarrow>
          if attempt < MAX_RETRIES - 1
          then fetch_page_attempts net rq rest
                 (w1\<lparr>sleeps := sleeps w1 @ [RETRY_DELAY * 2 ^ attempt]\<rparr>)
          else (w1, Inl ReadTimeout)
      | ConnectionFails \<Rightarrow>
          if attempt < MAX_RETRIES - 1
          then fetch_page_attempts net rq rest
                 (w1\<lparr>sleeps := sleeps w1 @ [RETRY_DELAY * 2 ^ attempt]\<rparr>)
          else (w1, Inl ConnectionError))"

definition fetch_page :: "'r network \<Rightarrow> request \<Rightarrow> world \<Rightarrow> world \<times> (exn + 'r list option)" where
  "fetch_page net rq w = fetch_page_attempts net rq [0..<MAX_RETRIES] w"

subsection \<open>fetch\_nyc311\_data\<close>

text \<open>The local variables of the pagination loop.\<close>

record 'r loop_state =
  offset :: int
  records :: "'r list"
  page_count :: nat

text \<open>
  The \<open>while True\<close> loop. It need not end (a source that always returns a full page keeps
  it running), so it is a partial function: \<open>None\<close> is a fetch that does not return.
  \<open>not rows\<close> holds for \<open>None\<close> and for the empty list.
\<close>

partial_function (option) fetch_loop ::
  "'r network \<Rightarrow> (string \<times> string) list \<Rightarrow> int \<Rightarrow> int \<Rightarrow> 'r loop_state \<Rightarrow> world
     \<Rightarrow> (world \<times> (exn + 'r list)) option" where
  "fetch_loop net headers year limit s w =
     (case fetch_page net
             \<lparr>rq_params = build_params year limit (offset s), rq_headers = headers\<rparr> w of
        (w1, Inl e) \<Rightarrow> Some (w1, Inl e)
      | (w1, Inr None) \<Rightarrow> Some (w1, Inr (records s))
      | (w1, Inr (Some rows)) \<Rightarrow>
          if rows = [] then Some (w1, Inr (records s))
          else if int (length rows) < limit then Some (w1, Inr (records s @ rows))
          else fetch_loop net headers year limit
                 \<lparr>offset = offset s + limit, records = records s @ rows,
                  page_count = page_count s + 1\<rparr> w1)"

text \<open>\<open>if app_token:\<close> is false for \<open>None\<close> and for the empty string.\<close>

definition make_headers :: "string option \<Rightarrow> (string \<times> string) list" where
  "make_headers app_token =
     (case app_token of
        None \<Rightarrow> []
      | Some t \<Rightarrow> if t = [] then [] else [(''X-App-Token'', t)])"

definition close_session :: "world \<times> (exn + 'r list) \<Rightarrow> world \<times> (exn + 'r list)" where
  "close_session r = ((fst r)\<lparr>closed := True\<rparr>, snd r)"

text \<open>
  The whole fetch. The check of \<open>limit\<close> comes before the session exists; the
  \<open>finally\<close> clause closes the session on every way out of the loop.
\<close>

definition fetch_nyc311_data ::
  "'r network \<Rightarrow> string option \<Rightarrow> int \<Rightarrow> int \<Rightarrow> (world \<times> (exn + 'r list)) option" where
  "fetch_nyc311_data net app_token limit year =
     (if limit \<le> 0 \<or> limit > MAX_LIMIT then Some (init_world, Inl ValueError)
      else map_option close_session
             (fetch_loop net (make_headers app_token) year limit
                \<lparr>offset = 0, records = [], page_count = 0\<rparr> init_world))"

section \<open>The cleaner (nyc311\_cleaning.py)\<close>

subsection \<open>Tables\<close>

text \<open>
  A row of the DataFrame, with the columns of \<open>REQUIRED_COLUMNS\<close>, the computed column
  \<open>response_time_days\<close> and the row's index label (pandas keeps the label of a row
  through every filter and every column assignment). \<open>None\<close> is a missing value
  (\<open>None\<close>, \<open>NaN\<close> or \<open>NaT\<close>). The dates are strings as fetched and timestamps
  (nanoseconds since the epoch) once parsed, hence the type parameter. A response time is
  a float in the source; the model reads it as the real number it stands for, and only
  its order and the missing value matter below.
\<close>

record 'd row =
  row_label :: nat
  unique_key :: "string option"
  created_date :: "'d option"
  closed_date :: "'d option"
  complaint_type :: "string option"
  borough :: "string option"
  open_data_channel_type :: "string option"
  response_time_days :: "real option"

text \<open>
  A DataFrame: its rows in order, and whether it has the column \<open>response_time_days\<close>
  (the field of a row is not read while the column is absent).
\<close>

record 'd table =
  has_response_time :: bool
  rows :: "'d row list"

subsection \<open>Stage 1: convert\_dates\_to\_datetime\<close>

text \<open>
  \<open>pd.to_datetime(..., errors="coerce")\<close>: a missing value stays missing and a string
  that does not parse becomes missing. The parser itself belongs to pandas and is a
  parameter.
\<close>

definition to_datetime :: "(string \<Rightarrow> int option) \<Rightarrow> string option \<Rightarrow> int option" where
  "to_datetime parse v = (case v of None \<Rightarrow> None | Some s \<Rightarrow> parse s)"

definition convert_dates_to_datetime :: "(string \<Rightarrow> int option) \<Rightarrow> string table \<Rightarrow> int table" where
  "convert_dates_to_datetime parse df =
     \<lparr>has_response_time = has_response_time df,
      rows = map (\<lambda>r. \<lparr>row_label = row_label r,
                         unique_key = unique_key r,
                         created_date = to_datetime parse (created_date r),
                         closed_date = to_datetime parse (closed_date r),
                         complaint_type = complaint_type r,
                         borough = borough r,
                         open_data_channel_type = open_data_channel_type r,
                         response_time_days = response_time_days r\<rparr>) (rows df)\<rparr>"

subsection \<open>Stage 2: compute\_response\_time\<close>

text \<open>
  \<open>(closed - created).dt.total_seconds() / (24 * 3600)\<close>; the difference with a missing
  date is missing.
\<close>

definition response_time :: "int option \<Rightarrow> int option \<Rightarrow> real option" where
  "response_time closed_at created_at =
     (case (closed_at, created_at) of
        (Some t2, Some t1) \<Rightarrow> Some (real_of_int (t2 - t1) / 1000000000 / (24 * 3600))
      | _ \<Rightarrow> None)"

definition compute_response_time :: "int table \<Rightarrow> int table" where
  "compute_response_time df =
     \<lparr>has_response_time = True,
      rows = map (\<lambda>r. r\<lparr>response_time_days := response_time (closed_date r) (created_date r)\<rparr>)
               (rows df)\<rparr>"

subsection \<open>Stage 3: filter\_invalid\_rows\<close>

text \<open>\<open>series > x\<close>: a comparison with a missing value is false.\<close>

definition gt :: "real option \<Rightarrow> real \<Rightarrow> bool" where
  "gt v x = (case v of None \<Rightarrow> False | Some y \<Rightarrow> y > x)"

definition notna :: "'a option \<Rightarrow> bool" where
  "notna v = (v \<noteq> None)"

definition filter_invalid_rows :: "'d table \<Rightarrow> bool \<Rightarrow> bool \<Rightarrow> bool \<Rightarrow> 'd table" where
  "filter_invalid_rows df require_created_date require_closed_date require_borough =
     (let df1 = (if require_created_date
                 then df\<lparr>rows := filter (\<lambda>r. notna (created_date r)) (rows df)\<rparr> else df);
          df2 = (if require_closed_date
                 then df1\<lparr>rows := filter (\<lambda>r. notna (closed_date r)) (rows df1)\<rparr> else df1);
          df3 = (if require_borough
                 then df2\<lparr>rows := filter (\<lambda>r. notna (borough r)) (rows df2)\<rparr> else df2)
      in if has_response_time df3
         then df3\<lparr>rows := filter (\<lambda>r. gt (response_time_days r) 0) (rows df3)\<rparr>
         else df3)"

subsection \<open>Stage 4: standardize\_channel\_type\<close>

text \<open>
  Strings are lists of 8-bit characters, read as ASCII: \<open>str.upper\<close> maps \<open>a\<close> to
  \<open>z\<close> onto \<open>A\<close> to \<open>Z\<close> and \<open>str.strip\<close> removes the ASCII white space of
  \<open>str.isspace\<close> from both ends.
\<close>

definition upper_char :: "char \<Rightarrow> char" where
  "upper_char c =
     (if (97::nat) \<le> of_char c \<and> of_char c \<le> (122::nat)
      then char_of (of_char c - (32::nat)) else c)"

definition str_upper :: "string \<Rightarrow> string" where
  "str_upper s = map upper_char s"

definition isspace :: "char \<Rightarrow> bool" where
  "isspace c = (of_char c \<in> {9, 10, 11, 12, 13, 28, 29, 30, 31, 32 :: nat})"

definition str_strip :: "string \<Rightarrow> string" where
  "str_strip s = rev (dropWhile isspace (rev (dropWhile isspace s)))"

definition channel_mapping :: "(string \<times> string) list" where
  "channel_mapping =
     [(''PHONE'', ''Phone''),
      (''ONLINE'', ''Web''),
      (''UNKNOWN'', ''Web''),
      (''MOBILE'', ''App''),
      (''OTHER'', ''Web'')]"

text \<open>
  The two assignments to the column, value by value: \<open>.str.upper().str.strip()\<close> leaves
  a missing value missing; \<open>.map(channel_mapping)\<close> gives a missing value for a missing or
  unmapped one, which \<open>.fillna("Web")\<close> replaces.
\<close>

definition normalize_channel :: "string option \<Rightarrow> string option" where
  "normalize_channel v = map_option (\<lambda>s. str_strip (str_upper s)) v"

definition map_channel :: "string option \<Rightarrow> string option" where
  "map_channel v = (case v of None \<Rightarrow> None | Some s \<Rightarrow> map_of channel_mapping s)"

definition fillna :: "'a \<Rightarrow> 'a option \<Rightarrow> 'a option" where
  "fillna d v = (case v of None \<Rightarrow> Some d | Some x \<Rightarrow> Some x)"

definition standardize_channel_type :: "'d table \<Rightarrow> 'd table" where
  "standardize_channel_type df =
     (let df1 = df\<lparr>rows := map (\<lambda>r. r\<lparr>open_data_channel_type :=
                                          normalize_channel (open_data_channel_type r)\<rparr>) (rows df)\<rparr>
      in df1\<lparr>rows := map (\<lambda>r. r\<lparr>open_data_channel_type :=
                                     fillna ''Web'' (map_channel (open_data_channel_type r))\<rparr>)
                          (rows df1)\<rparr>)"

subsection \<open>Stage 5: remove\_duplicates\<close>

text \<open>
  \<open>drop_duplicates(subset=[key_column], keep="first")\<close>: a row is dropped when an earlier
  row has the same key (two missing keys count as the same). \<open>seen\<close> holds the keys of
  the rows already passed. The key column is given by its selector.
\<close>

fun drop_duplicates :: "('a \<Rightarrow> 'k) \<Rightarrow> 'k list \<Rightarrow> 'a list \<Rightarrow> 'a list" where
  "drop_duplicates key seen [] = []"
| "drop_duplicates key seen (r # rs) =
     (if key r \<in> set seen then drop_duplicates key seen rs
      else r # drop_duplicates key (key r # seen) rs)"

definition remove_duplicates :: "'d table \<Rightarrow> ('d row \<Rightarrow> 'k) \<Rightarrow> 'd table" where
  "remove_duplicates df key_column = df\<lparr>rows := drop_duplicates key_column [] (rows df)\<rparr>"

subsection \<open>Stage 6: winsorize\_response\_time\<close>

definition dropna :: "'a option list \<Rightarrow> 'a list" where
  "dropna col = concat (map (\<lambda>v. case v of None \<Rightarrow> [] | Some x \<Rightarrow> [x]) col)"

text \<open>
  \<open>Series.quantile(q)\<close> with the default linear interpolation: \<open>q\<close> outside \<open>[0, 1]\<close>
  raises \<open>ValueError\<close>; missing values are skipped; with no value left the result is
  missing; otherwise it lies at position \<open>q * (n - 1)\<close> of the sorted values, between the
  two neighbours of that position.
\<close>

definition quantile :: "real option list \<Rightarrow> real \<Rightarrow> exn + real option" where
  "quantile col q =
     (if \<not> (0 \<le> q \<and> q \<le> 1) then Inl ValueError
      else let xs = sort (dropna col); n = length xs
           in if n = 0 then Inr None
              else let pos = q * real (n - 1);
                       lo = nat \<lfloor>pos\<rfloor>;
                       hi = min (lo + 1) (n - 1)
                   in Inr (Some (xs ! lo + (xs ! hi - xs ! lo) * (pos - real lo))))"

text \<open>
  \<open>Series.clip(upper=threshold)\<close>: a missing value stays missing, and a missing threshold
  clips nothing.
\<close>

definition clip_upper :: "real option \<Rightarrow> real option \<Rightarrow> real option" where
  "clip_upper threshold v =
     (case (v, threshold) of
        (Some x, Some t) \<Rightarrow> Some (if x > t then t else x)
      | _ \<Rightarrow> v)"

definition winsorize_response_time :: "'d table \<Rightarrow> real \<Rightarrow> exn + 'd table" where
  "winsorize_response_time df percentile =
     (if \<not> has_response_time df then Inr df
      else case quantile (map response_time_days (rows df)) (percentile / 100) of
             Inl e \<Rightarrow> Inl e
           | Inr threshold \<Rightarrow>
               Inr (df\<lparr>rows := map (\<lambda>r. r\<lparr>response_time_days :=
                                              clip_upper threshold (response_time_days r)\<rparr>)
                                   (rows df)\<rparr>))"

subsection \<open>Stage 7: select\_top\_complaint\_types\<close>

text \<open>
  \<open>Series.value_counts()\<close>: the distinct values that are not missing, each with the
  number of its occurrences, most frequent first; values with the same count are in the
  order of their first occurrence.
\<close>

definition value_counts :: "'a option list \<Rightarrow> ('a \<times> nat) list" where
  "value_counts col =
     (let vals = dropna col
      in sort_key (\<lambda>kc. - int (snd kc))
           (map (\<lambda>k. (k, count_list vals k)) (drop_duplicates (\<lambda>k. k) [] vals)))"

text \<open>\<open>head(n)\<close>: the first \<open>n\<close> entries, and all but the last \<open>-n\<close> for a negative \<open>n\<close>.\<close>

definition head :: "int \<Rightarrow> 'a list \<Rightarrow> 'a list" where
  "head n xs = (if n \<ge> 0 then take (nat n) xs else take (nat (int (length xs) + n)) xs)"

text \<open>\<open>series.isin(values)\<close>: false for a missing value.\<close>

definition isin :: "'a option \<Rightarrow> 'a list \<Rightarrow> bool" where
  "isin v values = (case v of None \<Rightarrow> False | Some x \<Rightarrow> x \<in> set values)"

text \<open>
  \<open>n_top\<close> is \<open>None\<close> when the driver is given a minimum count only; \<open>head(None)\<close> would
  raise \<open>TypeError\<close>.
\<close>

definition top_types ::
  "string option list \<Rightarrow> int option \<Rightarrow> int option \<Rightarrow> exn + string list" where
  "top_types col n_top min_count =
     (let complaint_counts = value_counts col
      in case min_count of
           Some m \<Rightarrow> Inr (map fst (filter (\<lambda>kc. int (snd kc) \<ge> m) complaint_counts))
         | None \<Rightarrow>
             (case n_top of
                None \<Rightarrow> Inl TypeError
              | Some n \<Rightarrow> Inr (map fst (head n complaint_counts))))"

definition select_top_complaint_types ::
  "'d table \<Rightarrow> int option \<Rightarrow> int option \<Rightarrow> exn + 'd table" where
  "select_top_complaint_types df n_top min_count =
     (case top_types (map complaint_type (rows df)) n_top min_count of
        Inl e \<Rightarrow> Inl e
      | Inr tops \<Rightarrow> Inr (df\<lparr>rows := filter (\<lambda>r. isin (complaint_type r) tops) (rows df)\<rparr>))"

subsection \<open>The driver: clean\_nyc311\_data\<close>

definition clean_nyc311_data ::
  "(string \<Rightarrow> int option) \<Rightarrow> string table \<Rightarrow> real \<Rightarrow> int option \<Rightarrow> int option \<Rightarrow> exn + int table" where
  "clean_nyc311_data parse df winsorize_percentile top_complaint_types min_complaint_count =
     (let df1 = convert_dates_to_datetime parse df;
          df2 = compute_response_time df1;
          df3 = filter_invalid_rows df2 True True True;
          df4 = standardize_channel_type df3;
          df5 = remove_duplicates df4 unique_key
      in case winsorize_response_time df5 winsorize_percentile of
           Inl e \<Rightarrow> Inl e
         | Inr df6 \<Rightarrow>
             if top_complaint_types \<noteq> None \<or> min_complaint_count \<noteq> None
             then select_top_complaint_types df6 top_complaint_types min_complaint_count
             else Inr df6)"

section \<open>Notions used to state the properties of the fetcher\<close>

text \<open>
  The request that page \<open>i\<close> (counted from 0) must be asked with: page size \<open>limit\<close>,
  offset \<open>i * limit\<close>, the year and the headers. It is written out field by field, so
  that it says what the fetcher has to send whatever \<open>build_params\<close> computes.
\<close>

definition page_request :: "(string \<times> string) list \<Rightarrow> int \<Rightarrow> int \<Rightarrow> nat \<Rightarrow> request" where
  "page_request headers year limit i =
     \<lparr>rq_params = \<lparr>p_limit = limit, p_offset = int i * limit, p_year = year\<rparr>,
      rq_headers = headers\<rparr>"

text \<open>
  The two outcomes that the \<open>except\<close> clause of \<open>_fetch_page\<close> catches, and the
  exception each of them stands for.
\<close>

definition transient :: "'r outcome \<Rightarrow> bool" where
  "transient out = (out = TimesOut \<or> out = ConnectionFails)"

definition raised_by :: "'r outcome \<Rightarrow> exn" where
  "raised_by out = (if out = TimesOut then ReadTimeout else ConnectionError)"

subsection \<open>Example sources\<close>

text \<open>Three pages of two rows and a last page of one row; the rows are numbers.\<close>

definition mock_pages :: "nat \<Rightarrow> nat list" where
  "mock_pages i = (if i < 3 then [10 * i, 10 * i + 1] else [10 * i])"

definition mock_source :: "nat network" where
  "mock_source i rq = Response 200 (mock_pages i)"

text \<open>A source where every request times out.\<close>

definition always_timeout :: "nat network" where
  "always_timeout i rq = TimesOut"

text \<open>A source whose first two requests fail and whose third succeeds.\<close>

definition flaky_source :: "nat network" where
  "flaky_source i rq =
     (if i = 0 then TimesOut else if i = 1 then ConnectionFails else Response 200 [7, 8])"

text \<open>A source that answers the third request with the status 404.\<close>

definition not_found_source :: "nat network" where
  "not_found_source i rq = (if i < 2 then Response 200 (mock_pages i) else Response 404 [])"

definition example_request :: request where
  "example_request = \<lparr>rq_params = build_params 2024 2 0, rq_headers = []\<rparr>"

section \<open>Notions used to state the properties of the cleaner\<close>

text \<open>What stage 4 makes of one value of \<open>open_data_channel_type\<close>.\<close>

definition standardized :: "string option \<Rightarrow> string option" where
  "standardized v = fillna ''Web'' (map_channel (normalize_channel v))"

text \<open>An example row, given its index label and its channel, and a table of five of them.\<close>

definition example_row :: "nat \<Rightarrow> string option \<Rightarrow> int row" where
  "example_row i channel =
     \<lparr>row_label = i, unique_key = Some ''k'', created_date = Some 0, closed_date = Some 1,
      complaint_type = Some ''Noise'', borough = Some ''BRONX'',
      open_data_channel_type = channel, response_time_days = None\<rparr>"

definition channel_table :: "int table" where
  "channel_table =
     \<lparr>has_response_time = False,
      rows = [example_row 0 (Some ''  pHoNe ''), example_row 1 (Some ''mobile''),
              example_row 2 None, example_row 3 (Some ''fax''), example_row 4 (Some ''Online'')]\<rparr>"

text \<open>Rows that differ in label and key only, and a table where the key \<open>1\<close> occurs three times.\<close>

definition key_row :: "nat \<Rightarrow> string \<Rightarrow> int row" where
  "key_row i k = (example_row i None)\<lparr>unique_key := Some k\<rparr>"

definition duplicate_table :: "int table" where
  "duplicate_table =
     \<lparr>has_response_time = False,
      rows = [key_row 0 ''1'', key_row 1 ''1'', key_row 2 ''2'', key_row 3 ''3'', key_row 4 ''1'']\<rparr>"

text \<open>
  A request that is still open: the table as fetched has one row with a creation date,
  no closing date and a borough.
\<close>

definition open_request_table :: "int table" where
  "open_request_table =
     \<lparr>has_response_time = False, rows = [(example_row 0 None)\<lparr>closed_date := None\<rparr>]\<rparr>"

text \<open>
  What identifies a row through the pipeline: its index label and the columns that no
  stage writes.
\<close>

definition untouched :: "('d, 'z) row_scheme \<Rightarrow> nat \<times> string option \<times> string option \<times> string option" where
  "untouched r = (row_label r, unique_key r, complaint_type r, borough r)"

text \<open>A raw table of six rows and a parser that knows three instants, a day apart.\<close>

definition raw_row ::
  "nat \<Rightarrow> string \<Rightarrow> string \<Rightarrow> string \<Rightarrow> string option \<Rightarrow> string \<Rightarrow> string \<Rightarrow> string row" where
  "raw_row i k created closed_at b t c =
     \<lparr>row_label = i, unique_key = Some k, created_date = Some created, closed_date = Some closed_at,
      complaint_type = Some t, borough = b, open_data_channel_type = Some c,
      response_time_days = None\<rparr>"

definition raw_table :: "string table" where
  "raw_table =
     \<lparr>has_response_time = False,
      rows = [raw_row 0 ''1'' ''day0'' ''day1'' (Some ''BRONX'') ''Noise'' ''PHONE'',
              raw_row 1 ''1'' ''day0'' ''day2'' (Some ''BRONX'') ''Noise'' ''ONLINE'',
              raw_row 2 ''2'' ''day1'' ''day0'' (Some ''QUEENS'') ''Heat'' ''MOBILE'',
              raw_row 3 ''3'' ''day0'' ''day2'' None ''Heat'' ''PHONE'',
              raw_row 4 ''4'' ''day0'' ''never'' (Some ''QUEENS'') ''Heat'' ''PHONE'',
              raw_row 5 ''5'' ''day0'' ''day2'' (Some ''QUEENS'') ''Heat'' ''UNKNOWN'']\<rparr>"

definition example_parse :: "string \<Rightarrow> int option" where
  "example_parse s =
     (if s = ''day0'' then Some 0
      else if s = ''day1'' then Some 86400000000000
      else if s = ''day2'' then Some 172800000000000
      else None)"

text \<open>What the cleaning of the raw table gives with the percentile 99 and no selection.\<close>

definition cleaned_table :: "int table" where
  "cleaned_table =
     \<lparr>has_response_time = True,
      rows = [\<lparr>row_label = 0, unique_key = Some ''1'', created_date = Some 0,
                closed_date = Some 86400000000000,
                complaint_type = Some ''Noise'', borough = Some ''BRONX'',
                open_data_channel_type = Some ''Phone'',
                response_time_days = Some 1\<rparr>,
              \<lparr>row_label = 5, unique_key = Some ''5'', created_date = Some 0,
                closed_date = Some 172800000000000,
                complaint_type = Some ''Heat'', borough = Some ''QUEENS'',
                open_data_channel_type = Some ''Web'',
                response_time_days = Some (199 / 100)\<rparr>]\<rparr>"

text \<open>
  The number of values of a column that are present and satisfy \<open>P\<close>, and what it means
  for a threshold to lie at the fraction \<open>q\<close> of a column: with \<open>n\<close> values present,
  more than \<open>q * (n - 1)\<close> of them are at most the threshold and more than
  \<open>(1 - q) * (n - 1)\<close> of them are at least the threshold; a column with no value has
  no threshold.
\<close>

definition count_where :: "(real \<Rightarrow> bool) \<Rightarrow> real option list \<Rightarrow> nat" where
  "count_where P col = length (filter (\<lambda>v. case v of None \<Rightarrow> False | Some x \<Rightarrow> P x) col)"

definition is_percentile :: "real \<Rightarrow> real option list \<Rightarrow> real option \<Rightarrow> bool" where
  "is_percentile q col threshold =
     (case threshold of
        None \<Rightarrow> count_where (\<lambda>x. True) col = 0
      | Some t \<Rightarrow>
          0 < count_where (\<lambda>x. True) col
          \<and> q * real (count_where (\<lambda>x. True) col - 1) < real (count_where (\<lambda>x. x \<le> t) col)
          \<and> (1 - q) * real (count_where (\<lambda>x. True) col - 1) < real (count_where (\<lambda>x. t \<le> x) col))"

text \<open>A table whose response times are 1, missing, 4, 2 and 3 days.\<close>

definition response_table :: "int table" where
  "response_table =
     \<lparr>has_response_time = True,
      rows = map (\<lambda>(i, v). (example_row i None)\<lparr>response_time_days := v\<rparr>)
               [(0, Some 1), (1, None), (2, Some 4), (3, Some 2), (4, Some 3)]\<rparr>"

text \<open>
  The number of rows of a table with a given complaint type, and the complaint types that
  occur in a table.
\<close>

definition frequency :: "'d table \<Rightarrow> string \<Rightarrow> nat" where
  "frequency df c = length (filter (\<lambda>r. complaint_type r = Some c) (rows df))"

definition categories :: "'d table \<Rightarrow> string set" where
  "categories df = {c. Some c \<in> set (map complaint_type (rows df))}"

text \<open>The rows of a table whose complaint type is one of the given ones.\<close>

definition rows_of_types :: "'d table \<Rightarrow> string set \<Rightarrow> 'd row list" where
  "rows_of_types df K =
     filter (\<lambda>r. case complaint_type r of None \<Rightarrow> False | Some c \<Rightarrow> c \<in> K) (rows df)"

text \<open>
  A table with 5 rows of type D, then 10 of type C, 30 of type B and 50 of type A.
\<close>

definition complaint_table :: "int table" where
  "complaint_table =
     \<lparr>has_response_time = False,
      rows = map (\<lambda>(i, c). (example_row i None)\<lparr>complaint_type := Some c\<rparr>)
               (zip [0..<95] (replicate 5 ''D'' @ replicate 10 ''C''
                              @ replicate 30 ''B'' @ replicate 50 ''A''))\<rparr>"

section \<open>Properties of the fetcher\<close>

subsection \<open>One step of the pagination loop\<close>

lemma fetch_loop_error:
  "fetch_page net \<lparr>rq_params = build_params year limit (offset s), rq_headers = hs\<rparr> w = (w1, Inl e)
   \<Longrightarrow> fetch_loop net hs year limit s w = Some (w1, Inl e)"
  by (subst fetch_loop.simps) simp

lemma fetch_loop_last:
  "fetch_page net \<lparr>rq_params = build_params year limit (offset s), rq_headers = hs\<rparr> w = (w1, Inr (Some page))
   \<Longrightarrow> int (length page) < limit
   \<Longrightarrow> fetch_loop net hs year limit s w = Some (w1, Inr (records s @ page))"
  by (subst fetch_loop.simps) simp

lemma fetch_loop_next:
  "fetch_page net \<lparr>rq_params = build_params year limit (offset s), rq_headers = hs\<rparr> w = (w1, Inr (Some page))
   \<Longrightarrow> page \<noteq> [] \<Longrightarrow> limit \<le> int (length page)
   \<Longrightarrow> fetch_loop net hs year limit s w =
       fetch_loop net hs year limit
         \<lparr>offset = offset s + limit, records = records s @ page, page_count = page_count s + 1\<rparr> w1"
  by (subst fetch_loop.simps) simp

text \<open>A request answered at once with a good status costs one request and no wait.\<close>

lemma fetch_page_first_try:
  "net (length (requests w)) rq = Response st body \<Longrightarrow> \<not> is_error_status st
   \<Longrightarrow> fetch_page net rq w = (w\<lparr>requests := requests w @ [rq]\<rparr>, Inr (Some body))"
  by (simp add: fetch_page_def MAX_RETRIES_def upt_rec)

subsection \<open>Pagination\<close>

text \<open>
  While the pages are full the loop goes on: from page \<open>j\<close> it reaches page \<open>n\<close> with
  the rows of the pages between appended and one request logged for each.
\<close>

lemma fetch_loop_full_pages:
  assumes "0 < limit"
    and "\<forall>i<n. net i (page_request hs year limit i) = Response 200 (pg i)"
    and "\<forall>i<n. limit \<le> int (length (pg i))"
  shows "j \<le> n \<Longrightarrow> length (requests w) = j \<Longrightarrow>
     fetch_loop net hs year limit \<lparr>offset = int j * limit, records = acc, page_count = pc\<rparr> w
       = fetch_loop net hs year limit
           \<lparr>offset = int n * limit, records = acc @ concat (map pg [j..<n]),
            page_count = pc + (n - j)\<rparr>
           (w\<lparr>requests := requests w @ map (page_request hs year limit) [j..<n]\<rparr>)"
proof (induction "n - j" arbitrary: j w acc pc)
  case 0
  then show ?case by simp
next
  case (Suc k)
  then have jn: "j < n" by simp
  have "net (length (requests w)) (page_request hs year limit j) = Response 200 (pg j)"
    using assms(2) Suc jn by simp
  then have "fetch_page net (page_request hs year limit j) w
        = (w\<lparr>requests := requests w @ [page_request hs year limit j]\<rparr>, Inr (Some (pg j)))"
    by (rule fetch_page_first_try) (simp add: is_error_status_def)
  then have pg: "fetch_page net \<lparr>rq_params = build_params year limit (int j * limit), rq_headers = hs\<rparr> w
        = (w\<lparr>requests := requests w @ [page_request hs year limit j]\<rparr>, Inr (Some (pg j)))"
    by (simp add: page_request_def build_params_def)
  have full: "limit \<le> int (length (pg j))" using assms(3) jn by simp
  then have ne: "pg j \<noteq> []" using assms(1) by auto
  have step: "fetch_loop net hs year limit \<lparr>offset = int j * limit, records = acc, page_count = pc\<rparr> w
     = fetch_loop net hs year limit \<lparr>offset = int (Suc j) * limit, records = acc @ pg j, page_count = pc + 1\<rparr>
         (w\<lparr>requests := requests w @ [page_request hs year limit j]\<rparr>)"
    using fetch_loop_next[where s = "\<lparr>offset = int j * limit, records = acc, page_count = pc\<rparr>", simplified, OF pg ne full]
    by (simp add: algebra_simps)
  have k: "k = n - Suc j" using Suc by simp
  have upt: "[j..<n] = j # [Suc j..<n]" using jn by (simp add: upt_conv_Cons)
  have len: "length (requests (w\<lparr>requests := requests w @ [page_request hs year limit j]\<rparr>)) = Suc j"
    using Suc(4) by simp
  have "Suc j \<le> n" using jn by simp
  moreover have "Suc (pc + n - Suc j) = pc + n - j" using jn by arith
  ultimately show ?case
    using Suc(1)[OF k _ len, of "acc @ pg j" "pc + 1"] unfolding step upt by simp
qed

lemma fetch_loop_pages:
  assumes "0 < limit"
    and "\<forall>i\<le>n. net i (page_request hs year limit i) = Response 200 (pg i)"
    and "\<forall>i<n. limit \<le> int (length (pg i))"
    and "int (length (pg n)) < limit"
  shows "fetch_loop net hs year limit \<lparr>offset = 0, records = [], page_count = 0\<rparr> init_world
       = Some (init_world\<lparr>requests := map (page_request hs year limit) [0..<Suc n]\<rparr>,
               Inr (concat (map pg [0..<Suc n])))"
proof -
  let ?w = "init_world\<lparr>requests := map (page_request hs year limit) [0..<n]\<rparr>"
  let ?s = "\<lparr>offset = int n * limit, records = concat (map pg [0..<n]), page_count = n\<rparr>"
  have a: "\<forall>i<n. net i (page_request hs year limit i) = Response 200 (pg i)"
    using assms(2) by simp
  have pre: "fetch_loop net hs year limit \<lparr>offset = 0, records = [], page_count = 0\<rparr> init_world
     = fetch_loop net hs year limit ?s ?w"
    using fetch_loop_full_pages[where net = net and pg = pg and n = n and hs = hs and year = year
        and j = 0 and w = init_world and acc = "[]" and pc = 0, OF assms(1) a assms(3)]
    by (simp add: init_world_def)
  have "net (length (requests ?w)) (page_request hs year limit n) = Response 200 (pg n)"
    using assms(2) by simp
  then have "fetch_page net (page_request hs year limit n) ?w
        = (?w\<lparr>requests := requests ?w @ [page_request hs year limit n]\<rparr>, Inr (Some (pg n)))"
    by (rule fetch_page_first_try) (simp add: is_error_status_def)
  then have pg: "fetch_page net \<lparr>rq_params = build_params year limit (offset ?s), rq_headers = hs\<rparr> ?w
        = (?w\<lparr>requests := requests ?w @ [page_request hs year limit n]\<rparr>, Inr (Some (pg n)))"
    by (simp add: page_request_def build_params_def)
  show ?thesis unfolding pre using fetch_loop_last[OF pg] assms(4) by simp
qed

text \<open>
  Claim C1. Let the source answer the \<open>i\<close>-th request, the one for offset \<open>i * limit\<close>,
  with the page \<open>pg i\<close>, where the pages before page \<open>n\<close> have at least \<open>limit\<close> rows
  and page \<open>n\<close> has fewer (possibly none). Then the fetch returns: it has sent exactly
  \<open>n + 1\<close> requests, each of page size \<open>limit\<close>, for the offsets
  \<open>0, limit, ..., n * limit\<close> in this order, without waiting, and its result is the rows of the pages \<open>0\<close> to \<open>n\<close> in order. So the loop goes
  on to the next offset after every page that is not short and stops at the first page
  that is empty or short. When the pages before page \<open>n\<close> have exactly \<open>limit\<close> rows the
  result has \<open>n * limit + k\<close> rows, \<open>k\<close> the size of the last page; \<open>n = 3\<close> is the case of
  four requests and \<open>3 * limit + k\<close> rows.
\<close>

theorem fetch_pagination:
  assumes "1 \<le> limit" and "limit \<le> MAX_LIMIT"
    and "\<forall>i\<le>n. net i (page_request (make_headers app_token) year limit i) = Response 200 (pg i)"
    and "\<forall>i<n. limit \<le> int (length (pg i))"
    and "int (length (pg n)) < limit"
  shows "\<exists>w page. fetch_nyc311_data net app_token limit year = Some (w, Inr page)
           \<and> requests w = map (page_request (make_headers app_token) year limit) [0..<Suc n]
           \<and> map (\<lambda>rq. p_offset (rq_params rq)) (requests w) = map (\<lambda>i. int i * limit) [0..<Suc n]
           \<and> map (\<lambda>rq. p_limit (rq_params rq)) (requests w) = replicate (n + 1) limit
           \<and> length (requests w) = n + 1
           \<and> sleeps w = [] \<and> closed w
           \<and> page = concat (map pg [0..<Suc n])
           \<and> ((\<forall>i<n. int (length (pg i)) = limit)
                \<longrightarrow> int (length page) = int n * limit + int (length (pg n)))"
proof -
  let ?hs = "make_headers app_token"
  let ?w = "\<lparr>requests = map (page_request ?hs year limit) [0..<Suc n], sleeps = [], closed = True\<rparr>"
  have "0 < limit" using assms(1) by simp
  from fetch_loop_pages[where net = net and pg = pg and n = n and hs = ?hs and year = year,
      OF this assms(3,4,5)]
  have loop: "fetch_loop net ?hs year limit \<lparr>offset = 0, records = [], page_count = 0\<rparr> init_world
      = Some (init_world\<lparr>requests := map (page_request ?hs year limit) [0..<Suc n]\<rparr>,
              Inr (concat (map pg [0..<Suc n])))"
    by (simp add: init_world_def del: upt_Suc)
  have res: "fetch_nyc311_data net app_token limit year = Some (?w, Inr (concat (map pg [0..<Suc n])))"
    using assms(1,2) loop
    by (simp add: fetch_nyc311_data_def close_session_def init_world_def del: upt_Suc)
  have len: "(\<forall>i<m. int (length (pg i)) = limit) \<Longrightarrow>
       int (length (concat (map pg [0..<m]))) = int m * limit" for m
    by (induction m) (simp_all add: algebra_simps)
  have offs: "map (\<lambda>rq. p_offset (rq_params rq)) (requests ?w) = map (\<lambda>i. int i * limit) [0..<Suc n]"
    by (simp add: page_request_def comp_def del: upt_Suc)
  have lims: "map (\<lambda>rq. p_limit (rq_params rq)) (requests ?w) = replicate (n + 1) limit"
    by (simp add: page_request_def comp_def map_replicate_const del: upt_Suc replicate_Suc)
  have size: "(\<forall>i<n. int (length (pg i)) = limit)
       \<longrightarrow> int (length (concat (map pg [0..<Suc n]))) = int n * limit + int (length (pg n))"
    using len[of n] by simp
  have "requests ?w = map (page_request ?hs year limit) [0..<Suc n]
      \<and> length (requests ?w) = n + 1 \<and> sleeps ?w = [] \<and> closed ?w"
    by simp
  with res offs lims size show ?thesis by blast
qed

theorem fetch_pagination_witness:
  "fetch_nyc311_data mock_source None 2 2024 =
     Some (\<lparr>requests =
              [\<lparr>rq_params = \<lparr>p_limit = 2, p_offset = 0, p_year = 2024\<rparr>, rq_headers = []\<rparr>,
               \<lparr>rq_params = \<lparr>p_limit = 2, p_offset = 2, p_year = 2024\<rparr>, rq_headers = []\<rparr>,
               \<lparr>rq_params = \<lparr>p_limit = 2, p_offset = 4, p_year = 2024\<rparr>, rq_headers = []\<rparr>,
               \<lparr>rq_params = \<lparr>p_limit = 2, p_offset = 6, p_year = 2024\<rparr>, rq_headers = []\<rparr>],
            sleeps = [], closed = True\<rparr>,
           Inr [0, 1, 10, 11, 20, 21, 30])"
proof -
  have a: "\<forall>i\<le>3. mock_source i (page_request (make_headers None) 2024 2 i) = Response 200 (mock_pages i)"
    by (simp add: mock_source_def)
  have b: "\<forall>i<3. (2::int) \<le> int (length (mock_pages i))"
    by (simp add: mock_pages_def)
  have c: "int (length (mock_pages 3)) < 2"
    by (simp add: mock_pages_def)
  have d: "(1::int) \<le> 2" "(2::int) \<le> MAX_LIMIT" by (simp_all add: MAX_LIMIT_def)
  have e: "[0..<Suc 3] = [0, 1, 2, 3]" by (simp add: upt_rec)
  from fetch_pagination[where net = mock_source and pg = mock_pages and n = 3 and limit = 2
      and app_token = None and year = 2024, OF d a b c] show ?thesis
    unfolding e by (auto simp: mock_pages_def make_headers_def page_request_def)
qed

subsection \<open>The check of the limit\<close>

lemma fetch_page_no_value_error:
  "fetch_page_attempts net rq as w = (w', r) \<Longrightarrow> r \<noteq> Inl ValueError"
  by (induction as arbitrary: w) (auto simp: Let_def split: outcome.splits if_splits)

lemma fetch_loop_no_value_error:
  assumes "fetch_loop net hs year limit s w = Some y"
  shows "snd y \<noteq> Inl ValueError"
proof (rule fetch_loop.raw_induct[where P = "\<lambda>net hs year limit s w y. snd y \<noteq> Inl ValueError", OF _ assms])
  fix fl :: "'a network \<Rightarrow> (string \<times> string) list \<Rightarrow> int \<Rightarrow> int \<Rightarrow> 'a loop_state \<Rightarrow> world
     \<Rightarrow> (world \<times> (exn + 'a list)) option" and net hs year limit s w y
  assume IH: "\<And>net hs year limit s w y. fl net hs year limit s w = Some y \<Longrightarrow> snd y \<noteq> Inl ValueError"
    and st: "(case fetch_page net
             \<lparr>rq_params = build_params year limit (offset s), rq_headers = hs\<rparr> w of
        (w1, Inl e) \<Rightarrow> Some (w1, Inl e)
      | (w1, Inr None) \<Rightarrow> Some (w1, Inr (records s))
      | (w1, Inr (Some page)) \<Rightarrow>
          if page = [] then Some (w1, Inr (records s))
          else if int (length page) < limit then Some (w1, Inr (records s @ page))
          else fl net hs year limit
                 \<lparr>offset = offset s + limit, records = records s @ page,
                  page_count = page_count s + 1\<rparr> w1) = Some y"
  show "snd y \<noteq> Inl ValueError" using st
    by (auto simp: fetch_page_def split: prod.splits sum.splits option.splits if_splits
        dest: fetch_page_no_value_error IH)
qed

text \<open>
  Claim C3. The fetch raises \<open>ValueError\<close> if and only if \<open>limit\<close> is outside
  \<open>[1, 50000]\<close>. When it is outside, the error comes before any request: the world is
  the initial one, with no request sent. When it is inside, no outcome of the fetch is a
  \<open>ValueError\<close>, whatever the source does.
\<close>

theorem fetch_limit_check:
  "((\<exists>w. fetch_nyc311_data net app_token limit year = Some (w, Inl ValueError))
      = (limit < 1 \<or> 50000 < limit))
   \<and> (limit < 1 \<or> 50000 < limit \<longrightarrow>
        fetch_nyc311_data net app_token limit year = Some (init_world, Inl ValueError)
        \<and> requests init_world = [])
   \<and> (1 \<le> limit \<and> limit \<le> 50000 \<longrightarrow>
        (\<forall>w. fetch_nyc311_data net app_token limit year \<noteq> Some (w, Inl ValueError)))"
proof -
  have bad: "fetch_nyc311_data net app_token limit year = Some (init_world, Inl ValueError)"
    if "limit < 1 \<or> 50000 < limit"
    using that by (auto simp: fetch_nyc311_data_def MAX_LIMIT_def)
  have good: "fetch_nyc311_data net app_token limit year \<noteq> Some (w, Inl ValueError)"
    if "1 \<le> limit \<and> limit \<le> 50000" for w
  proof
    assume "fetch_nyc311_data net app_token limit year = Some (w, Inl ValueError)"
    with that obtain y where
      "fetch_loop net (make_headers app_token) year limit
         \<lparr>offset = 0, records = [], page_count = 0\<rparr> init_world = Some y"
      and "close_session y = (w, Inl ValueError)"
      by (auto simp: fetch_nyc311_data_def MAX_LIMIT_def)
    then show False
      using fetch_loop_no_value_error[of net "make_headers app_token" year limit _ init_world y]
      by (simp add: close_session_def)
  qed
  have "limit < 1 \<or> 50000 < limit \<or> (1 \<le> limit \<and> limit \<le> 50000)" by arith
  then show ?thesis using bad good by (auto simp: init_world_def)
qed

theorem fetch_limit_check_witness:
  "fetch_nyc311_data mock_source None 0 2024 = Some (init_world, Inl ValueError)
   \<and> fetch_nyc311_data mock_source None 50001 2024 = Some (init_world, Inl ValueError)
   \<and> fetch_nyc311_data mock_source None 1 2024 \<noteq> Some (init_world, Inl ValueError)
   \<and> fetch_nyc311_data mock_source None 50000 2024 \<noteq> Some (init_world, Inl ValueError)"
  using fetch_limit_check[of mock_source None 0 2024]
    fetch_limit_check[of mock_source None 50001 2024]
    fetch_limit_check[of mock_source None 1 2024]
    fetch_limit_check[of mock_source None 50000 2024]
  by simp

subsection \<open>Retries of one page request\<close>

lemma attempts_list: "[0..<MAX_RETRIES] = [0, 1, 2]"
  unfolding MAX_RETRIES_def by (simp add: upt_rec eval_nat_numeral)

lemma fetch_page_unfold:
  "fetch_page net rq w = fetch_page_attempts net rq [0, 1, 2] w"
  unfolding fetch_page_def attempts_list by (rule refl)

lemma attempt_retry:
  "transient (net (length (requests w)) rq) \<Longrightarrow> attempt < 2 \<Longrightarrow>
   fetch_page_attempts net rq (attempt # rest) w
     = fetch_page_attempts net rq rest
         (w\<lparr>requests := requests w @ [rq], sleeps := sleeps w @ [2 * 2 ^ attempt]\<rparr>)"
  by (auto simp: transient_def Let_def MAX_RETRIES_def RETRY_DELAY_def)

lemma attempt_gives_up:
  "transient (net (length (requests w)) rq) \<Longrightarrow> \<not> attempt < 2 \<Longrightarrow>
   fetch_page_attempts net rq (attempt # rest) w
     = (w\<lparr>requests := requests w @ [rq]\<rparr>, Inl (raised_by (net (length (requests w)) rq)))"
  by (auto simp: transient_def Let_def MAX_RETRIES_def raised_by_def)

lemma attempt_settles:
  "\<not> transient (net (length (requests w)) rq) \<Longrightarrow>
   fst (fetch_page_attempts net rq (attempt # rest) w) = w\<lparr>requests := requests w @ [rq]\<rparr>"
  by (auto simp: transient_def Let_def split: outcome.splits)

lemma attempt_succeeds:
  "net (length (requests w)) rq = Response status body \<Longrightarrow> \<not> is_error_status status \<Longrightarrow>
   fetch_page_attempts net rq (attempt # rest) w
     = (w\<lparr>requests := requests w @ [rq]\<rparr>, Inr (Some body))"
  by (simp add: Let_def)

lemma one_retry:
  assumes "transient (net (length (requests w)) rq)"
  shows "fetch_page net rq w
     = fetch_page_attempts net rq [1, 2]
         (w\<lparr>requests := requests w @ [rq], sleeps := sleeps w @ [2]\<rparr>)"
  unfolding fetch_page_unfold using attempt_retry[of net w rq 0 "[1, 2]", OF assms] by simp

lemma two_retries:
  assumes "transient (net (length (requests w)) rq)"
    and "transient (net (length (requests w) + 1) rq)"
  shows "fetch_page net rq w
     = fetch_page_attempts net rq [2]
         (w\<lparr>requests := requests w @ [rq, rq], sleeps := sleeps w @ [2, 4]\<rparr>)"
proof -
  let ?w1 = "w\<lparr>requests := requests w @ [rq], sleeps := sleeps w @ [2]\<rparr>"
  have "transient (net (length (requests ?w1)) rq)" using assms(2) by simp
  from attempt_retry[of net ?w1 rq 1 "[2]", OF this]
  show ?thesis unfolding one_retry[of net w rq, OF assms(1)] by simp
qed

text \<open>
  Claim C2, as the code has it. One page request makes at most three attempts. Before
  attempt 2 it waits \<open>RETRY_DELAY * 2 ^ 0 = 2\<close> seconds and before attempt 3
  \<open>RETRY_DELAY * 2 ^ 1 = 4\<close> seconds, and these are the only waits: the waits of a page
  request are the first \<open>k\<close> of them, for \<open>k + 1\<close> attempts. When the first two attempts
  fail with a read timeout or a connection error and the third succeeds, there are
  exactly the two waits and the rows of the third response are returned. When the third
  attempt fails as well its exception is raised at once, after the same two waits.
\<close>

theorem fetch_page_retry:
  "(\<exists>k\<le>2. sleeps (fst (fetch_page net rq w)) = sleeps w @ map (\<lambda>attempt. RETRY_DELAY * 2 ^ attempt) [0..<k]
          \<and> requests (fst (fetch_page net rq w)) = requests w @ replicate (k + 1) rq)
   \<and> (transient (net (length (requests w)) rq) \<and> transient (net (length (requests w) + 1) rq)
        \<and> net (length (requests w) + 2) rq = Response status body \<and> \<not> is_error_status status
       \<longrightarrow> fetch_page net rq w
             = (w\<lparr>requests := requests w @ [rq, rq, rq], sleeps := sleeps w @ [2, 4]\<rparr>,
                Inr (Some body)))
   \<and> (transient (net (length (requests w)) rq) \<and> transient (net (length (requests w) + 1) rq)
        \<and> transient (net (length (requests w) + 2) rq)
       \<longrightarrow> fetch_page net rq w
             = (w\<lparr>requests := requests w @ [rq, rq, rq], sleeps := sleeps w @ [2, 4]\<rparr>,
                Inl (raised_by (net (length (requests w) + 2) rq))))"
proof (intro conjI impI)
  let ?c = "length (requests w)"
  let ?w1 = "w\<lparr>requests := requests w @ [rq], sleeps := sleeps w @ [2]\<rparr>"
  let ?w2 = "w\<lparr>requests := requests w @ [rq, rq], sleeps := sleeps w @ [2, 4]\<rparr>"
  consider (a) "\<not> transient (net ?c rq)"
    | (b) "transient (net ?c rq)" "\<not> transient (net (?c + 1) rq)"
    | (c) "transient (net ?c rq)" "transient (net (?c + 1) rq)"
    by blast
  then show "\<exists>k\<le>2. sleeps (fst (fetch_page net rq w)) = sleeps w @ map (\<lambda>attempt. RETRY_DELAY * 2 ^ attempt) [0..<k]
          \<and> requests (fst (fetch_page net rq w)) = requests w @ replicate (k + 1) rq"
  proof cases
    case a
    show ?thesis unfolding fetch_page_unfold attempt_settles[of net w rq, OF a]
      by (rule exI[of _ 0]) simp
  next
    case b
    have "\<not> transient (net (length (requests ?w1)) rq)" using b(2) by simp
    from attempt_settles[of net ?w1 rq, OF this]
    show ?thesis unfolding one_retry[of net w rq, OF b(1)]
      by (intro exI[of _ 1]) (simp del: fetch_page_attempts.simps add: RETRY_DELAY_def)
  next
    case c
    have "fst (fetch_page_attempts net rq [2] ?w2) = ?w2\<lparr>requests := requests ?w2 @ [rq]\<rparr>"
    proof (cases "transient (net (length (requests ?w2)) rq)")
      case True
      from attempt_gives_up[of net ?w2 rq 2 "[]", OF this]
      show ?thesis by (simp del: fetch_page_attempts.simps)
    next
      case False
      from attempt_settles[of net ?w2 rq, OF this] show ?thesis .
    qed
    then show ?thesis unfolding two_retries[of net w rq, OF c]
      by (intro exI[of _ 2])
         (simp del: fetch_page_attempts.simps add: RETRY_DELAY_def upt_rec eval_nat_numeral)
  qed
next
  assume h: "transient (net (length (requests w)) rq) \<and> transient (net (length (requests w) + 1) rq)
        \<and> net (length (requests w) + 2) rq = Response status body \<and> \<not> is_error_status status"
  let ?w2 = "w\<lparr>requests := requests w @ [rq, rq], sleeps := sleeps w @ [2, 4]\<rparr>"
  have r2: "net (length (requests ?w2)) rq = Response status body" using h by simp
  have ok: "\<not> is_error_status status" using h by simp
  have t: "transient (net (length (requests w)) rq)" "transient (net (length (requests w) + 1) rq)"
    using h by simp_all
  have "fetch_page net rq w = fetch_page_attempts net rq [2] ?w2"
    by (rule two_retries[of net w rq, OF t])
  also have "\<dots> = (?w2\<lparr>requests := requests ?w2 @ [rq]\<rparr>, Inr (Some body))"
    by (rule attempt_succeeds[of net ?w2 rq, OF r2 ok])
  also have "\<dots> = (w\<lparr>requests := requests w @ [rq, rq, rq], sleeps := sleeps w @ [2, 4]\<rparr>,
                Inr (Some body))"
    by simp
  finally show "fetch_page net rq w
             = (w\<lparr>requests := requests w @ [rq, rq, rq], sleeps := sleeps w @ [2, 4]\<rparr>,
                Inr (Some body))" .
next
  assume h: "transient (net (length (requests w)) rq) \<and> transient (net (length (requests w) + 1) rq)
        \<and> transient (net (length (requests w) + 2) rq)"
  let ?w2 = "w\<lparr>requests := requests w @ [rq, rq], sleeps := sleeps w @ [2, 4]\<rparr>"
  have t2: "transient (net (length (requests ?w2)) rq)" using h by simp
  have t: "transient (net (length (requests w)) rq)" "transient (net (length (requests w) + 1) rq)"
    using h by simp_all
  have "fetch_page net rq w = fetch_page_attempts net rq [2] ?w2"
    by (rule two_retries[of net w rq, OF t])
  also have "\<dots> = (?w2\<lparr>requests := requests ?w2 @ [rq]\<rparr>,
                     Inl (raised_by (net (length (requests ?w2)) rq)))"
    by (rule attempt_gives_up[of net ?w2 rq 2 "[]", OF t2]) simp
  also have "\<dots> = (w\<lparr>requests := requests w @ [rq, rq, rq], sleeps := sleeps w @ [2, 4]\<rparr>,
                Inl (raised_by (net (length (requests w) + 2) rq)))"
    by simp
  finally show "fetch_page net rq w
             = (w\<lparr>requests := requests w @ [rq, rq, rq], sleeps := sleeps w @ [2, 4]\<rparr>,
                Inl (raised_by (net (length (requests w) + 2) rq)))" .
qed

text \<open>
  The claim as the specification states it has a wait of 8 seconds before the final
  failure is raised. With a source that always times out the waits are 2 and 4 seconds
  and the read timeout is raised without a third wait.
\<close>

theorem no_wait_before_final_failure:
  "fetch_page always_timeout example_request init_world
     = (\<lparr>requests = [example_request, example_request, example_request], sleeps = [2, 4],
         closed = False\<rparr>, Inl ReadTimeout)
   \<and> 8 \<notin> set (sleeps (fst (fetch_page always_timeout example_request init_world)))"
  by (simp add: fetch_page_unfold always_timeout_def init_world_def MAX_RETRIES_def RETRY_DELAY_def
      Let_def)

theorem fetch_page_retry_witness:
  "fetch_page flaky_source example_request init_world
     = (\<lparr>requests = [example_request, example_request, example_request], sleeps = [2, 4],
         closed = False\<rparr>, Inr (Some [7, 8]))
   \<and> fetch_page always_timeout example_request init_world
     = (\<lparr>requests = [example_request, example_request, example_request], sleeps = [2, 4],
         closed = False\<rparr>, Inl ReadTimeout)"
  using fetch_page_retry[of flaky_source example_request init_world 200 "[7, 8]"]
    fetch_page_retry[of always_timeout example_request init_world 200 "[]"]
  by (simp add: flaky_source_def always_timeout_def transient_def raised_by_def init_world_def
      is_error_status_def)

subsection \<open>HTTP error statuses\<close>

text \<open>
  Claim C10. A response with a status from 400 to 599 (404 and 400 among them) makes
  \<open>raise_for_status\<close> raise \<open>HTTPError\<close>, which the retry loop does not catch: the page
  request ends after this one attempt with no wait, the pagination loop ends with the same
  error whatever it had accumulated, and the whole fetch, after any number \<open>n\<close> of full
  pages, returns the error and no rows, having sent \<open>n + 1\<close> requests and waited never.
\<close>

theorem http_error_propagates:
  assumes "is_error_status status"
  shows "(net (length (requests w)) rq = Response status body
            \<longrightarrow> fetch_page net rq w = (w\<lparr>requests := requests w @ [rq]\<rparr>, Inl (HTTPError status)))
    \<and> (net (length (requests w))
            \<lparr>rq_params = build_params year limit (offset s), rq_headers = hs\<rparr> = Response status body
         \<longrightarrow> fetch_loop net hs year limit s w
               = Some (w\<lparr>requests := requests w @
                          [\<lparr>rq_params = build_params year limit (offset s), rq_headers = hs\<rparr>]\<rparr>,
                       Inl (HTTPError status)))
    \<and> (1 \<le> limit \<and> limit \<le> 50000
         \<and> (\<forall>i<n. net i (page_request (make_headers app_token) year limit i) = Response 200 (pg i))
         \<and> (\<forall>i<n. limit \<le> int (length (pg i)))
         \<and> net n (page_request (make_headers app_token) year limit n) = Response status body
         \<longrightarrow> fetch_nyc311_data net app_token limit year
               = Some (\<lparr>requests = map (page_request (make_headers app_token) year limit) [0..<Suc n],
                        sleeps = [], closed = True\<rparr>,
                       Inl (HTTPError status)))"
proof -
  have page: "fetch_page net rq w = (w\<lparr>requests := requests w @ [rq]\<rparr>, Inl (HTTPError status))"
    if "net (length (requests w)) rq = Response status body" for net :: "'a network" and w rq
    using that assms by (simp add: fetch_page_unfold Let_def)
  have loop: "fetch_loop net hs year limit s w
               = Some (w\<lparr>requests := requests w @
                          [\<lparr>rq_params = build_params year limit (offset s), rq_headers = hs\<rparr>]\<rparr>,
                       Inl (HTTPError status))"
    if "net (length (requests w))
            \<lparr>rq_params = build_params year limit (offset s), rq_headers = hs\<rparr> = Response status body"
    for net :: "'a network" and w s hs year limit
    by (rule fetch_loop_error)
       (rule page[where net = net and w = w
          and rq = "\<lparr>rq_params = build_params year limit (offset s), rq_headers = hs\<rparr>", OF that])
  have whole: "fetch_nyc311_data net app_token limit year
               = Some (\<lparr>requests = map (page_request (make_headers app_token) year limit) [0..<Suc n],
                        sleeps = [], closed = True\<rparr>,
                       Inl (HTTPError status))"
    if h: "1 \<le> limit \<and> limit \<le> 50000
         \<and> (\<forall>i<n. net i (page_request (make_headers app_token) year limit i) = Response 200 (pg i))
         \<and> (\<forall>i<n. limit \<le> int (length (pg i)))
         \<and> net n (page_request (make_headers app_token) year limit n) = Response status body"
  proof -
    let ?hs = "make_headers app_token"
    let ?w = "init_world\<lparr>requests := map (page_request ?hs year limit) [0..<n]\<rparr>"
    let ?s = "\<lparr>offset = int n * limit, records = concat (map pg [0..<n]), page_count = n\<rparr>"
    have pos: "0 < limit" using h by simp
    have a: "\<forall>i<n. net i (page_request ?hs year limit i) = Response 200 (pg i)" using h by simp
    have b: "\<forall>i<n. limit \<le> int (length (pg i))" using h by simp
    have pre: "fetch_loop net ?hs year limit \<lparr>offset = 0, records = [], page_count = 0\<rparr> init_world
       = fetch_loop net ?hs year limit ?s ?w"
      using fetch_loop_full_pages[where net = net and pg = pg and n = n and hs = ?hs and year = year
          and j = 0 and w = init_world and acc = "[]" and pc = 0, OF pos a b]
      by (simp add: init_world_def)
    have "net (length (requests ?w))
            \<lparr>rq_params = build_params year limit (offset ?s), rq_headers = ?hs\<rparr> = Response status body"
      using h by (simp add: page_request_def build_params_def)
    from loop[where net = net and w = ?w and s = ?s and hs = ?hs and year = year and limit = limit,
        OF this]
    have "fetch_loop net ?hs year limit ?s ?w
       = Some (init_world\<lparr>requests := map (page_request ?hs year limit) [0..<Suc n]\<rparr>,
               Inl (HTTPError status))"
      by (simp add: page_request_def build_params_def)
    then show ?thesis using h unfolding fetch_nyc311_data_def pre
      by (simp add: MAX_LIMIT_def close_session_def init_world_def)
  qed
  show ?thesis using page loop whole by blast
qed

theorem http_error_propagates_witness:
  "fetch_nyc311_data not_found_source None 2 2024
     = Some (\<lparr>requests = map (page_request [] 2024 2) [0, 1, 2], sleeps = [], closed = True\<rparr>,
             Inl (HTTPError 404))"
proof -
  have s: "is_error_status 404" by (simp add: is_error_status_def)
  have e: "[0..<Suc 2] = [0, 1, 2]" by (simp add: upt_rec)
  have "(1::int) \<le> 2 \<and> (2::int) \<le> 50000
         \<and> (\<forall>i<2. not_found_source i (page_request (make_headers None) 2024 2 i) = Response 200 (mock_pages i))
         \<and> (\<forall>i<2. 2 \<le> int (length (mock_pages i)))
         \<and> not_found_source 2 (page_request (make_headers None) 2024 2 2) = Response 404 []"
    by (simp add: not_found_source_def mock_pages_def)
  with http_error_propagates[OF s, where net = not_found_source and limit = 2 and n = 2
      and pg = mock_pages and app_token = None and year = 2024 and body = "[]"]
  show ?thesis unfolding e by (simp add: make_headers_def)
qed

section \<open>Properties of the cleaner\<close>

subsection \<open>Stage 4: the channel\<close>

lemma standardize_rows:
  "rows (standardize_channel_type df)
     = map (\<lambda>r. r\<lparr>open_data_channel_type := standardized (open_data_channel_type r)\<rparr>) (rows df)"
  by (simp add: standardize_channel_type_def standardized_def Let_def)

lemma standardized_cases:
  "standardized v = (case v of None \<Rightarrow> Some ''Web'' | Some s \<Rightarrow>
      (let u = str_strip (str_upper s) in
       if u = ''PHONE'' then Some ''Phone''
       else if u = ''ONLINE'' then Some ''Web''
       else if u = ''UNKNOWN'' then Some ''Web''
       else if u = ''MOBILE'' then Some ''App''
       else if u = ''OTHER'' then Some ''Web'' else Some ''Web''))"
  by (simp add: standardized_def fillna_def map_channel_def normalize_channel_def channel_mapping_def
      Let_def split: option.splits)

text \<open>
  Claim C5. After stage 4 every row has one of the channels \<open>Phone\<close>, \<open>Web\<close>,
  \<open>App\<close>, whatever the table. Stage 4 rewrites each value on its own: a missing value
  becomes \<open>Web\<close>; a string whose uppercased, trimmed form is \<open>PHONE\<close>, \<open>ONLINE\<close>,
  \<open>UNKNOWN\<close>, \<open>MOBILE\<close> or \<open>OTHER\<close> becomes \<open>Phone\<close>, \<open>Web\<close>, \<open>Web\<close>,
  \<open>App\<close>, \<open>Web\<close>; every other string becomes \<open>Web\<close>.
\<close>

theorem channel_mapping_total:
  "(\<forall>r \<in> set (rows (standardize_channel_type df)).
      open_data_channel_type r \<in> {Some ''Phone'', Some ''Web'', Some ''App''})
   \<and> rows (standardize_channel_type df)
       = map (\<lambda>r. r\<lparr>open_data_channel_type := standardized (open_data_channel_type r)\<rparr>) (rows df)
   \<and> standardized v \<in> {Some ''Phone'', Some ''Web'', Some ''App''}
   \<and> standardized None = Some ''Web''
   \<and> (str_strip (str_upper s) = ''PHONE'' \<longrightarrow> standardized (Some s) = Some ''Phone'')
   \<and> (str_strip (str_upper s) = ''ONLINE'' \<longrightarrow> standardized (Some s) = Some ''Web'')
   \<and> (str_strip (str_upper s) = ''UNKNOWN'' \<longrightarrow> standardized (Some s) = Some ''Web'')
   \<and> (str_strip (str_upper s) = ''MOBILE'' \<longrightarrow> standardized (Some s) = Some ''App'')
   \<and> (str_strip (str_upper s) = ''OTHER'' \<longrightarrow> standardized (Some s) = Some ''Web'')
   \<and> (str_strip (str_upper s) \<notin> {''PHONE'', ''ONLINE'', ''UNKNOWN'', ''MOBILE'', ''OTHER''}
        \<longrightarrow> standardized (Some s) = Some ''Web'')"
proof -
  have total: "standardized v \<in> {Some ''Phone'', Some ''Web'', Some ''App''}" for v
    by (simp add: standardized_cases Let_def split: option.splits)
  have "\<forall>r \<in> set (rows (standardize_channel_type df)).
      open_data_channel_type r \<in> {Some ''Phone'', Some ''Web'', Some ''App''}"
    unfolding standardize_rows using total by auto
  moreover have "standardized None = Some ''Web''"
    by (simp add: standardized_cases)
  moreover have "str_strip (str_upper s) = ''PHONE'' \<longrightarrow> standardized (Some s) = Some ''Phone''"
    "str_strip (str_upper s) = ''ONLINE'' \<longrightarrow> standardized (Some s) = Some ''Web''"
    "str_strip (str_upper s) = ''UNKNOWN'' \<longrightarrow> standardized (Some s) = Some ''Web''"
    "str_strip (str_upper s) = ''MOBILE'' \<longrightarrow> standardized (Some s) = Some ''App''"
    "str_strip (str_upper s) = ''OTHER'' \<longrightarrow> standardized (Some s) = Some ''Web''"
    "str_strip (str_upper s) \<notin> {''PHONE'', ''ONLINE'', ''UNKNOWN'', ''MOBILE'', ''OTHER''}
        \<longrightarrow> standardized (Some s) = Some ''Web''"
    by (simp_all add: standardized_cases Let_def)
  ultimately show ?thesis using total standardize_rows by blast
qed

lemma upper_strip_phone: "str_strip (str_upper ''  pHoNe '') = ''PHONE''"
  by code_simp

lemma upper_strip_mobile: "str_strip (str_upper ''mobile'') = ''MOBILE''"
  by code_simp

lemma upper_strip_online: "str_strip (str_upper ''Online'') = ''ONLINE''"
  by code_simp

lemma upper_strip_fax: "str_strip (str_upper ''fax'') = ''FAX''"
  by code_simp

lemma channel_table_standardized:
  "map open_data_channel_type (rows (standardize_channel_type channel_table))
     = [Some ''Phone'', Some ''App'', Some ''Web'', Some ''Web'', Some ''Web'']"
  by code_simp

theorem channel_mapping_total_witness:
  "map open_data_channel_type (rows (standardize_channel_type channel_table))
        = [Some ''Phone'', Some ''App'', Some ''Web'', Some ''Web'', Some ''Web'']
   \<and> str_strip (str_upper ''  pHoNe '') = ''PHONE''
   \<and> standardized (Some ''  pHoNe '') = Some ''Phone''
   \<and> str_strip (str_upper ''fax'') \<notin> {''PHONE'', ''ONLINE'', ''UNKNOWN'', ''MOBILE'', ''OTHER''}
   \<and> standardized (Some ''fax'') = Some ''Web''"
proof -
  note phone = channel_mapping_total[of channel_table None "''  pHoNe ''"]
  note fax = channel_mapping_total[of channel_table None "''fax''"]
  have b: "standardized (Some ''  pHoNe '') = Some ''Phone''"
    using phone upper_strip_phone by blast
  have c: "str_strip (str_upper ''fax'') \<notin> {''PHONE'', ''ONLINE'', ''UNKNOWN'', ''MOBILE'', ''OTHER''}"
    unfolding upper_strip_fax by simp
  have d: "standardized (Some ''fax'') = Some ''Web''"
    using fax c by blast
  show ?thesis using b c d channel_table_standardized upper_strip_phone by blast
qed

subsection \<open>Stage 5: duplicates\<close>

lemma drop_duplicates_subseq: "subseq (drop_duplicates key seen xs) xs"
  by (induction xs arbitrary: seen) auto

lemma drop_duplicates_unseen:
  "x \<in> set (drop_duplicates key seen xs) \<Longrightarrow> key x \<notin> set seen"
proof (induction xs arbitrary: seen)
  case Nil
  then show ?case by simp
next
  case (Cons y ys)
  show ?case
  proof (cases "key y \<in> set seen")
    case True
    then show ?thesis using Cons by simp
  next
    case False
    then have "x = y \<or> x \<in> set (drop_duplicates key (key y # seen) ys)"
      using Cons.prems by simp
    then show ?thesis
    proof
      assume "x = y"
      then show ?thesis using False by simp
    next
      assume "x \<in> set (drop_duplicates key (key y # seen) ys)"
      from Cons.IH[OF this] show ?thesis by simp
    qed
  qed
qed

lemma drop_duplicates_distinct: "distinct (map key (drop_duplicates key seen xs))"
proof (induction xs arbitrary: seen)
  case Nil
  then show ?case by simp
next
  case (Cons y ys)
  have "key y \<notin> key ` set (drop_duplicates key (key y # seen) ys)"
  proof
    assume "key y \<in> key ` set (drop_duplicates key (key y # seen) ys)"
    then obtain x where x: "x \<in> set (drop_duplicates key (key y # seen) ys)" "key x = key y"
      by auto
    from drop_duplicates_unseen[OF x(1)] x(2) show False by simp
  qed
  then show ?case using Cons.IH by simp
qed

lemma drop_duplicates_fixed:
  "distinct (map key ys) \<Longrightarrow> set (map key ys) \<inter> set seen = {}
   \<Longrightarrow> drop_duplicates key seen ys = ys"
  by (induction ys arbitrary: seen) auto

lemma drop_duplicates_first:
  "r \<in> set xs \<Longrightarrow> key r \<notin> set seen
   \<Longrightarrow> find (\<lambda>x. key x = key r) (drop_duplicates key seen xs) = find (\<lambda>x. key x = key r) xs"
proof (induction xs arbitrary: seen)
  case Nil
  then show ?case by simp
next
  case (Cons x xs)
  show ?case
  proof (cases "key x = key r")
    case True
    then show ?thesis using Cons.prems by simp
  next
    case False
    then have r: "r \<in> set xs" using Cons.prems by auto
    show ?thesis
    proof (cases "key x \<in> set seen")
      case True
      then show ?thesis using False Cons.IH[OF r Cons.prems(2)] by simp
    next
      case new: False
      have "key r \<notin> set (key x # seen)" using False Cons.prems(2) by auto
      from Cons.IH[OF r this] show ?thesis using False new by simp
    qed
  qed
qed

text \<open>
  Claim C6. Deduplicating the output of deduplication changes nothing. In the output no
  two rows have the same key; the output is the input with rows left out, in the input's
  order; and for every row of the input, the first row with its key in the output is the
  first row with its key in the input: each key keeps its first occurrence and nothing
  else.
\<close>

theorem remove_duplicates_idempotent:
  "remove_duplicates (remove_duplicates df key_column) key_column = remove_duplicates df key_column
   \<and> distinct (map key_column (rows (remove_duplicates df key_column)))
   \<and> subseq (rows (remove_duplicates df key_column)) (rows df)
   \<and> (\<forall>r \<in> set (rows df).
         find (\<lambda>x. key_column x = key_column r) (rows (remove_duplicates df key_column))
           = find (\<lambda>x. key_column x = key_column r) (rows df))
   \<and> has_response_time (remove_duplicates df key_column) = has_response_time df"
proof -
  let ?out = "drop_duplicates key_column [] (rows df)"
  have d: "distinct (map key_column ?out)"
    by (rule drop_duplicates_distinct)
  then have "drop_duplicates key_column [] ?out = ?out"
    by (rule drop_duplicates_fixed) simp
  then have idem: "remove_duplicates (remove_duplicates df key_column) key_column
      = remove_duplicates df key_column"
    by (simp add: remove_duplicates_def)
  have first: "\<forall>r \<in> set (rows df).
         find (\<lambda>x. key_column x = key_column r) ?out = find (\<lambda>x. key_column x = key_column r) (rows df)"
    using drop_duplicates_first[of _ "rows df" key_column "[]"] by simp
  show ?thesis using idem d first drop_duplicates_subseq[of key_column "[]" "rows df"]
    by (simp add: remove_duplicates_def)
qed

lemma duplicate_table_deduplicated:
  "rows (remove_duplicates duplicate_table unique_key) = [key_row 0 ''1'', key_row 2 ''2'', key_row 3 ''3'']"
  by (simp add: remove_duplicates_def duplicate_table_def key_row_def example_row_def)

theorem remove_duplicates_idempotent_witness:
  "key_row 4 ''1'' \<in> set (rows duplicate_table)
   \<and> find (\<lambda>x. unique_key x = unique_key (key_row 4 ''1''))
        (rows (remove_duplicates duplicate_table unique_key)) = Some (key_row 0 ''1'')
   \<and> rows (remove_duplicates duplicate_table unique_key)
        = [key_row 0 ''1'', key_row 2 ''2'', key_row 3 ''3'']
   \<and> remove_duplicates (remove_duplicates duplicate_table unique_key) unique_key
        = remove_duplicates duplicate_table unique_key"
proof -
  note t = remove_duplicates_idempotent[of duplicate_table unique_key]
  have m: "key_row 4 ''1'' \<in> set (rows duplicate_table)"
    by (simp add: duplicate_table_def)
  have "find (\<lambda>x. unique_key x = unique_key (key_row 4 ''1'')) (rows duplicate_table)
      = Some (key_row 0 ''1'')"
    by (simp add: duplicate_table_def key_row_def)
  with t m have "find (\<lambda>x. unique_key x = unique_key (key_row 4 ''1''))
        (rows (remove_duplicates duplicate_table unique_key)) = Some (key_row 0 ''1'')"
    by simp
  with t m duplicate_table_deduplicated show ?thesis by simp
qed

subsection \<open>Stage 3: invalid rows\<close>

text \<open>
  Stage 3 as one filter: a row stays when it meets each active requirement and, if the
  table has the column, its response time compares greater than 0.
\<close>

lemma filter_invalid_rows_rows:
  "rows (filter_invalid_rows df c d b) =
     filter (\<lambda>r. (c \<longrightarrow> created_date r \<noteq> None) \<and> (d \<longrightarrow> closed_date r \<noteq> None)
                 \<and> (b \<longrightarrow> borough r \<noteq> None)
                 \<and> (has_response_time df \<longrightarrow> gt (response_time_days r) 0)) (rows df)"
  by (auto simp: filter_invalid_rows_def Let_def notna_def intro: filter_cong)

text \<open>
  Claim C4 says that a row whose response time is missing is not removed by the
  response-time condition, for instance when \<open>require_closed_date\<close> is off. The code
  removes it: stage 2 gives the open request a missing response time, the comparison of
  a missing value with 0 is false, and stage 3 with \<open>require_closed_date\<close> off returns
  the empty table, although the row has its creation date and its borough.
\<close>

theorem filter_invalid_rows_drops_null_response_time:
  "map closed_date (rows (compute_response_time open_request_table)) = [None]
   \<and> map response_time_days (rows (compute_response_time open_request_table)) = [None]
   \<and> has_response_time (compute_response_time open_request_table)
   \<and> rows (filter_invalid_rows (compute_response_time open_request_table) True False True) = []"
  by (simp add: filter_invalid_rows_rows compute_response_time_def open_request_table_def
      example_row_def response_time_def gt_def)

subsection \<open>Winsorizing the response time\<close>

lemma count_where_dropna: "length (filter P (dropna col)) = count_where P col"
  by (induction col) (auto simp: dropna_def count_where_def split: option.splits)

lemma count_where_sort: "length (filter P (sort (dropna col))) = count_where P col"
  by (simp add: filter_sort count_where_dropna)

lemma count_le:
  assumes "sorted xs" and "i < length xs" and "xs ! i \<le> (t::real)"
  shows "i < length (filter (\<lambda>v. v \<le> t) xs)"
proof -
  have all: "\<forall>v \<in> set (take (Suc i) xs). v \<le> t"
  proof
    fix v assume "v \<in> set (take (Suc i) xs)"
    then obtain j where "j < Suc i" "j < length xs" "v = xs ! j"
      by (auto simp: in_set_conv_nth)
    then have "v \<le> xs ! i" using assms(1,2) by (simp add: sorted_nth_mono)
    then show "v \<le> t" using assms(3) by simp
  qed
  have "filter (\<lambda>v. v \<le> t) xs
      = filter (\<lambda>v. v \<le> t) (take (Suc i) xs) @ filter (\<lambda>v. v \<le> t) (drop (Suc i) xs)"
    by (metis append_take_drop_id filter_append)
  also have "filter (\<lambda>v. v \<le> t) (take (Suc i) xs) = take (Suc i) xs"
    using all by (simp add: filter_id_conv)
  finally show ?thesis using assms(2) by simp
qed

lemma count_ge:
  assumes "sorted xs" and "i < length xs" and "(t::real) \<le> xs ! i"
  shows "length xs - i \<le> length (filter (\<lambda>v. t \<le> v) xs)"
proof -
  have all: "\<forall>v \<in> set (drop i xs). t \<le> v"
  proof
    fix v assume "v \<in> set (drop i xs)"
    then obtain j where "j < length xs - i" "v = xs ! (i + j)"
      by (auto simp: in_set_conv_nth)
    then have "xs ! i \<le> v" using assms(1,2) by (simp add: sorted_nth_mono)
    then show "t \<le> v" using assms(3) by simp
  qed
  have "filter (\<lambda>v. t \<le> v) xs
      = filter (\<lambda>v. t \<le> v) (take i xs) @ filter (\<lambda>v. t \<le> v) (drop i xs)"
    by (metis append_take_drop_id filter_append)
  also have "filter (\<lambda>v. t \<le> v) (drop i xs) = drop i xs"
    using all by (simp add: filter_id_conv)
  finally show ?thesis by simp
qed

lemma quantile_is_percentile:
  assumes "0 \<le> q" and "q \<le> 1"
  shows "\<exists>threshold. quantile col q = Inr threshold \<and> is_percentile q col threshold"
proof -
  define xs where "xs = sort (dropna col)"
  define n where "n = length xs"
  have n: "count_where (\<lambda>x. True) col = n"
    using count_where_sort[of "\<lambda>x. True" col] by (simp add: n_def xs_def)
  have cnt: "count_where P col = length (filter P xs)" for P
    by (simp add: xs_def count_where_sort)
  have srt: "sorted xs" by (simp add: xs_def)
  show ?thesis
  proof (cases "n = 0")
    case True
    then have "quantile col q = Inr None"
      using assms by (simp add: quantile_def Let_def n_def xs_def)
    moreover have "is_percentile q col None"
      using True n by (simp add: is_percentile_def)
    ultimately show ?thesis by blast
  next
    case False
    define pos where "pos = q * real (n - 1)"
    define lo where "lo = nat \<lfloor>pos\<rfloor>"
    define hi where "hi = min (lo + 1) (n - 1)"
    define t where "t = xs ! lo + (xs ! hi - xs ! lo) * (pos - real lo)"
    have ne: "sort (dropna col) \<noteq> []"
      using False unfolding n_def xs_def by (metis list.size(3))
    have q: "quantile col q = Inr (Some t)"
      using assms ne
      by (simp add: quantile_def Let_def n_def xs_def t_def hi_def lo_def pos_def)
    have pos0: "0 \<le> pos" using assms(1) by (simp add: pos_def)
    have "q * real (n - 1) \<le> 1 * real (n - 1)"
      using assms(2) by (intro mult_right_mono) simp_all
    then have pos1: "pos \<le> real (n - 1)" by (simp add: pos_def)
    have lo_le: "real lo \<le> pos" using pos0 by (simp add: lo_def)
    have lo_gt: "pos < real lo + 1" using pos0 by (simp add: lo_def)
    have "real lo \<le> real (n - 1)" using lo_le pos1 by linarith
    then have lo_n1: "lo \<le> n - 1" by simp
    then have lo_n: "lo < n" using False by simp
    have hi_n: "hi < n" using False by (simp add: hi_def)
    have lo_hi: "lo \<le> hi" using lo_n1 by (simp add: hi_def)
    have ab: "xs ! lo \<le> xs ! hi"
      using srt lo_hi hi_n by (simp add: sorted_nth_mono n_def)
    have f0: "0 \<le> pos - real lo" using lo_le by simp
    have f1: "pos - real lo \<le> 1" using lo_gt by simp
    have at: "xs ! lo \<le> t"
      using ab f0 by (simp add: t_def)
    have "(xs ! hi - xs ! lo) * (pos - real lo) \<le> (xs ! hi - xs ! lo) * 1"
      using ab f1 by (intro mult_left_mono) simp_all
    then have tb: "t \<le> xs ! hi" by (simp add: t_def)
    have "lo < length (filter (\<lambda>v. v \<le> t) xs)"
      using srt lo_n at by (intro count_le) (simp_all add: n_def)
    then have "real lo + 1 \<le> real (length (filter (\<lambda>v. v \<le> t) xs))" by simp
    then have p1: "pos < real (count_where (\<lambda>x. x \<le> t) col)"
      using lo_gt by (simp add: cnt)
    have p2: "real (n - 1) - pos < real (count_where (\<lambda>x. t \<le> x) col)"
    proof (cases "pos = real lo")
      case True
      then have "t = xs ! lo" by (simp add: t_def)
      then have "n - lo \<le> length (filter (\<lambda>v. t \<le> v) xs)"
        using count_ge[OF srt, of lo t] lo_n by (simp add: n_def)
      then have "real (n - lo) \<le> real (length (filter (\<lambda>v. t \<le> v) xs))" by simp
      moreover have "real (n - 1) - real lo < real (n - lo)" using lo_n by simp
      ultimately show ?thesis using True by (simp add: cnt)
    next
      case neq: False
      then have "real lo < pos" using lo_le by simp
      then have "real lo < real (n - 1)" using pos1 by linarith
      then have lt: "lo < n - 1" by simp
      then have hi: "hi = lo + 1" by (simp add: hi_def)
      have "n - hi \<le> length (filter (\<lambda>v. t \<le> v) xs)"
        using count_ge[OF srt, of hi t] hi_n tb by (simp add: n_def)
      then have "real (n - hi) \<le> real (length (filter (\<lambda>v. t \<le> v) xs))" by simp
      moreover have "real (n - hi) = real (n - 1) - real lo" using lt hi by simp
      ultimately show ?thesis using \<open>real lo < pos\<close> by (simp add: cnt)
    qed
    have "(1 - q) * real (n - 1) = real (n - 1) - pos"
      by (simp add: pos_def algebra_simps)
    then have "is_percentile q col (Some t)"
      using p1 p2 False n by (simp add: is_percentile_def pos_def)
    with q show ?thesis by blast
  qed
qed

lemma count_where_none:
  assumes "count_where (\<lambda>x. True) col = 0" and "v \<in> set col"
  shows "v = None"
proof -
  have "filter (\<lambda>v. case v of None \<Rightarrow> False | Some x \<Rightarrow> True) col = []"
    using assms(1) by (simp add: count_where_def)
  then have "\<not> (case v of None \<Rightarrow> False | Some x \<Rightarrow> True)"
    using assms(2) by (simp add: filter_empty_conv)
  then show ?thesis by (cases v) simp_all
qed

lemma clip_upper_none: "clip_upper threshold None = None"
  by (simp add: clip_upper_def)

lemma clip_upper_some: "clip_upper (Some t) (Some v) = Some (min v t)"
  by (simp add: clip_upper_def min_def)

lemma response_table_winsorized:
  "winsorize_response_time response_table 50 =
     Inr \<lparr>has_response_time = True,
          rows = [(example_row 0 None)\<lparr>response_time_days := Some 1\<rparr>,
                  (example_row 1 None)\<lparr>response_time_days := None\<rparr>,
                  (example_row 2 None)\<lparr>response_time_days := Some (5 / 2)\<rparr>,
                  (example_row 3 None)\<lparr>response_time_days := Some 2\<rparr>,
                  (example_row 4 None)\<lparr>response_time_days := Some (5 / 2)\<rparr>]\<rparr>"
  by code_simp

lemma response_table_quantile:
  "quantile (map response_time_days (rows response_table)) (50 / 100) = Inr (Some (5 / 2))"
  by code_simp

text \<open>
  Claim C7.  For every table that has the column \<open>response_time_days\<close> and every
  percentile between 0 and 100, stage 6 returns a table; its threshold is the given
  percentile of the response times of the table it was given; the rows are the same rows in
  the same order, changed at most in their response time; a missing response time stays
  missing; and a response time \<open>v\<close> becomes the smaller of \<open>v\<close> and the threshold, so
  that every value present afterwards is at most the threshold and every value that was at
  most the threshold is unchanged.
\<close>

theorem winsorize_caps:
  assumes "has_response_time df" and "0 \<le> percentile" and "percentile \<le> 100"
  shows "\<exists>threshold df'.
           winsorize_response_time df percentile = Inr df'
         \<and> quantile (map response_time_days (rows df)) (percentile / 100) = Inr threshold
         \<and> is_percentile (percentile / 100) (map response_time_days (rows df)) threshold
         \<and> has_response_time df'
         \<and> length (rows df') = length (rows df)
         \<and> (\<forall>i < length (rows df).
               rows df' ! i =
                 (rows df ! i)\<lparr>response_time_days := response_time_days (rows df' ! i)\<rparr>
             \<and> (case response_time_days (rows df ! i) of
                   None \<Rightarrow> response_time_days (rows df' ! i) = None
                 | Some v \<Rightarrow>
                     (\<exists>t. threshold = Some t
                        \<and> response_time_days (rows df' ! i) = Some (min v t)
                        \<and> (\<forall>w. response_time_days (rows df' ! i) = Some w \<longrightarrow> w \<le> t)
                        \<and> (v \<le> t \<longrightarrow> response_time_days (rows df' ! i) = Some v))))"
proof -
  define col where "col = map response_time_days (rows df)"
  have "0 \<le> percentile / 100" and "percentile / 100 \<le> 1"
    using assms(2,3) by simp_all
  then obtain threshold where q: "quantile col (percentile / 100) = Inr threshold"
    and ip: "is_percentile (percentile / 100) col threshold"
    using quantile_is_percentile[of "percentile / 100" col] by blast
  define df' where
    "df' = df\<lparr>rows := map (\<lambda>r. r\<lparr>response_time_days :=
                                     clip_upper threshold (response_time_days r)\<rparr>) (rows df)\<rparr>"
  have w: "winsorize_response_time df percentile = Inr df'"
    using assms(1) q by (simp add: winsorize_response_time_def col_def df'_def)
  have h: "has_response_time df'" using assms(1) by (simp add: df'_def)
  have len: "length (rows df') = length (rows df)" by (simp add: df'_def)
  have row: "rows df' ! i =
               (rows df ! i)\<lparr>response_time_days := response_time_days (rows df' ! i)\<rparr>
           \<and> (case response_time_days (rows df ! i) of
                 None \<Rightarrow> response_time_days (rows df' ! i) = None
               | Some v \<Rightarrow>
                   (\<exists>t. threshold = Some t
                      \<and> response_time_days (rows df' ! i) = Some (min v t)
                      \<and> (\<forall>w. response_time_days (rows df' ! i) = Some w \<longrightarrow> w \<le> t)
                      \<and> (v \<le> t \<longrightarrow> response_time_days (rows df' ! i) = Some v)))"
    if i: "i < length (rows df)" for i
  proof -
    have nth: "rows df' ! i =
                 (rows df ! i)\<lparr>response_time_days :=
                                 clip_upper threshold (response_time_days (rows df ! i))\<rparr>"
      using i by (simp add: df'_def)
    then have rt: "response_time_days (rows df' ! i) =
                     clip_upper threshold (response_time_days (rows df ! i))"
      by simp
    have same: "rows df' ! i =
                  (rows df ! i)\<lparr>response_time_days := response_time_days (rows df' ! i)\<rparr>"
      using nth rt by simp
    show ?thesis
    proof (cases "response_time_days (rows df ! i)")
      case None
      then show ?thesis using same rt by (simp add: clip_upper_none)
    next
      case (Some v)
      have mem: "Some v \<in> set col"
        using i Some unfolding col_def by (metis length_map nth_map nth_mem)
      obtain t where t: "threshold = Some t"
      proof (cases threshold)
        case None
        then have "count_where (\<lambda>x. True) col = 0"
          using ip by (simp add: is_percentile_def)
        then have "Some v = None" using mem by (rule count_where_none)
        then show ?thesis by simp
      next
        case (Some t)
        then show ?thesis using that by simp
      qed
      have "response_time_days (rows df' ! i) = Some (min v t)"
        using rt Some t by (simp add: clip_upper_some)
      then show ?thesis using same Some t by (simp add: min_def)
    qed
  qed
  show ?thesis
    using w q ip h len row unfolding col_def by blast
qed

theorem winsorize_caps_witness:
  "has_response_time response_table \<and> (0::real) \<le> 50 \<and> (50::real) \<le> 100
   \<and> (\<exists>threshold df'.
          winsorize_response_time response_table 50 = Inr df'
        \<and> threshold = Some (5 / 2)
        \<and> is_percentile (50 / 100) (map response_time_days (rows response_table)) threshold
        \<and> map response_time_days (rows df') = [Some 1, None, Some (5 / 2), Some 2, Some (5 / 2)])"
proof -
  have h: "has_response_time response_table" by (simp add: response_table_def)
  obtain threshold df' where
    w: "winsorize_response_time response_table 50 = Inr df'"
    and q: "quantile (map response_time_days (rows response_table)) (50 / 100) = Inr threshold"
    and ip: "is_percentile (50 / 100) (map response_time_days (rows response_table)) threshold"
    using winsorize_caps[where df = response_table and percentile = 50] h by auto
  have t: "threshold = Some (5 / 2)"
    using q response_table_quantile by simp
  have "map response_time_days (rows df') = [Some 1, None, Some (5 / 2), Some 2, Some (5 / 2)]"
    using w response_table_winsorized by auto
  with h w t ip show ?thesis by simp
qed

subsection \<open>The order of the rows\<close>

lemma clean_raw_table:
  "clean_nyc311_data example_parse raw_table 99 None None = Inr cleaned_table"
  by code_simp

lemma subseq_filter_map: "subseq (map f (filter P xs)) (map f xs)"
  by (induction xs) auto

lemma stage1_untouched:
  "map untouched (rows (convert_dates_to_datetime parse df)) = map untouched (rows df)"
  by (simp add: convert_dates_to_datetime_def untouched_def)

lemma stage2_untouched:
  "map untouched (rows (compute_response_time df)) = map untouched (rows df)"
  by (simp add: compute_response_time_def untouched_def)

lemma stage3_subseq:
  "subseq (rows (filter_invalid_rows df c d b)) (rows df)"
  by (simp add: filter_invalid_rows_rows)

lemma stage4_untouched:
  "map untouched (rows (standardize_channel_type df)) = map untouched (rows df)"
  by (simp add: standardize_channel_type_def untouched_def Let_def)

lemma stage5_subseq:
  "subseq (rows (remove_duplicates df key_column)) (rows df)"
  by (simp add: remove_duplicates_def drop_duplicates_subseq)

lemma stage6_untouched:
  "winsorize_response_time df percentile = Inr df'
   \<Longrightarrow> map untouched (rows df') = map untouched (rows df)"
  by (auto simp: winsorize_response_time_def untouched_def split: if_splits sum.splits)

lemma stage7_subseq:
  "select_top_complaint_types df n_top min_count = Inr df' \<Longrightarrow> subseq (rows df') (rows df)"
  by (auto simp: select_top_complaint_types_def split: sum.splits)

lemma subseq_untouched: "subseq xs ys \<Longrightarrow> subseq (map untouched xs) (map untouched ys)"
  by (rule subseq_map)

text \<open>
  Claim C9. No stage reorders rows. Stages 1, 2, 4 and 6 keep every row in its place and
  write only the dates, the response time and the channel. Stages 3, 5 and 7 return the
  rows of their input with some left out, in the input's order. So the rows of a cleaned
  table are rows of the raw table, identified by their labels and the columns that are
  never written, in the order they had in the raw table.
\<close>

theorem row_order_preserved:
  "map untouched (rows (convert_dates_to_datetime parse raw)) = map untouched (rows raw)
   \<and> map untouched (rows (compute_response_time df)) = map untouched (rows df)
   \<and> subseq (rows (filter_invalid_rows df c d b)) (rows df)
   \<and> map untouched (rows (standardize_channel_type df)) = map untouched (rows df)
   \<and> subseq (rows (remove_duplicates df key_column)) (rows df)
   \<and> (winsorize_response_time df percentile = Inr df6
        \<longrightarrow> map untouched (rows df6) = map untouched (rows df))
   \<and> (select_top_complaint_types df n_top min_count = Inr df7 \<longrightarrow> subseq (rows df7) (rows df))
   \<and> (clean_nyc311_data parse raw percentile n_top min_count = Inr out
        \<longrightarrow> subseq (map untouched (rows out)) (map untouched (rows raw)))"
proof -
  have driver: "subseq (map untouched (rows out)) (map untouched (rows raw))"
    if c: "clean_nyc311_data parse raw percentile n_top min_count = Inr out"
  proof -
    let ?df1 = "convert_dates_to_datetime parse raw"
    let ?df2 = "compute_response_time ?df1"
    let ?df3 = "filter_invalid_rows ?df2 True True True"
    let ?df4 = "standardize_channel_type ?df3"
    let ?df5 = "remove_duplicates ?df4 unique_key"
    from c obtain df6 where w: "winsorize_response_time ?df5 percentile = Inr df6"
      and last: "out = df6 \<or> select_top_complaint_types df6 n_top min_count = Inr out"
      by (auto simp: clean_nyc311_data_def Let_def split: sum.splits if_splits)
    have "subseq (map untouched (rows ?df3)) (map untouched (rows ?df2))"
      by (rule subseq_untouched) (rule stage3_subseq)
    then have s3: "subseq (map untouched (rows ?df3)) (map untouched (rows raw))"
      by (simp only: stage2_untouched stage1_untouched)
    have "subseq (map untouched (rows ?df5)) (map untouched (rows ?df4))"
      by (rule subseq_untouched) (rule stage5_subseq)
    then have "subseq (map untouched (rows ?df5)) (map untouched (rows ?df3))"
      by (simp only: stage4_untouched)
    with s3 have s5: "subseq (map untouched (rows ?df5)) (map untouched (rows raw))"
      by (rule subseq_order.trans[rotated])
    then have s6: "subseq (map untouched (rows df6)) (map untouched (rows raw))"
      by (simp only: stage6_untouched[OF w])
    from last show ?thesis
    proof
      assume "out = df6"
      with s6 show ?thesis by simp
    next
      assume "select_top_complaint_types df6 n_top min_count = Inr out"
      then have "subseq (map untouched (rows out)) (map untouched (rows df6))"
        by (intro subseq_untouched stage7_subseq)
      then show ?thesis using s6 by (rule subseq_order.trans)
    qed
  qed
  show ?thesis
    using stage1_untouched stage2_untouched stage3_subseq stage4_untouched stage5_subseq
      stage6_untouched stage7_subseq driver
    by blast
qed

theorem row_order_preserved_witness:
  "clean_nyc311_data example_parse raw_table 99 None None = Inr cleaned_table
   \<and> map row_label (rows cleaned_table) = [0, 5]
   \<and> map row_label (rows raw_table) = [0, 1, 2, 3, 4, 5]
   \<and> subseq (map untouched (rows cleaned_table)) (map untouched (rows raw_table))"
proof -
  have "map row_label (rows cleaned_table) = [0, 5]"
    by (simp add: cleaned_table_def)
  moreover have "map row_label (rows raw_table) = [0, 1, 2, 3, 4, 5]"
    by (simp add: raw_table_def raw_row_def)
  ultimately show ?thesis
    using clean_raw_table
      row_order_preserved[where parse = example_parse and raw = raw_table and percentile = 99
        and n_top = None and min_count = None and out = cleaned_table]
    by blast
qed

subsection \<open>Stage 7: the complaint types that are kept\<close>

lemma drop_duplicates_keys:
  "key ` set (drop_duplicates key seen xs) = key ` set xs - set seen"
  by (induction xs arbitrary: seen) auto

lemma count_list_dropna: "count_list (dropna col) k = count_list col (Some k)"
  by (induction col) (auto simp: dropna_def split: option.splits)

lemma count_list_map_filter: "count_list (map f xs) y = length (filter (\<lambda>x. f x = y) xs)"
  by (induction xs) auto

lemma frequency_count_list:
  "count_list (dropna (map complaint_type (rows df))) c = frequency df c"
  by (simp add: count_list_dropna frequency_def count_list_map_filter)

lemma set_dropna: "set (dropna col) = {c. Some c \<in> set col}"
  by (induction col) (auto simp: dropna_def split: option.splits)

lemma categories_dropna: "set (dropna (map complaint_type (rows df))) = categories df"
  unfolding categories_def by (rule set_dropna)

text \<open>
  The ranking of the complaint types: every type of the table once, each with its number
  of rows, in descending order of that number.
\<close>

lemma value_counts_set:
  "set (value_counts (map complaint_type (rows df))) = (\<lambda>c. (c, frequency df c)) ` categories df"
proof -
  have "set (drop_duplicates (\<lambda>k. k) [] vals) = set vals" for vals :: "string list"
    using drop_duplicates_keys[of "\<lambda>k. k" "[]" vals] by simp
  then show ?thesis
    by (simp add: value_counts_def Let_def frequency_count_list categories_dropna)
qed

lemma value_counts_distinct: "distinct (map fst (value_counts col))"
proof -
  define vals where "vals = dropna col"
  define D where "D = drop_duplicates (\<lambda>k. k) [] vals"
  define xs where "xs = map (\<lambda>k. (k, count_list vals k)) D"
  have "distinct D" using drop_duplicates_distinct[of "\<lambda>k. k" "[]" vals] by (simp add: D_def)
  then have d: "distinct (map fst xs)" by (simp add: xs_def comp_def)
  then have "distinct xs" and "inj_on fst (set xs)" by (simp_all add: distinct_map)
  then have "distinct (map fst (sort_key (\<lambda>kc. - int (snd kc)) xs))"
    by (simp add: distinct_map)
  then show ?thesis by (simp add: value_counts_def Let_def xs_def D_def vals_def)
qed

lemma value_counts_sorted: "sorted (map (\<lambda>kc. - int (snd kc)) (value_counts col))"
  by (simp add: value_counts_def Let_def)

lemma value_counts_fst: "fst ` set (value_counts (map complaint_type (rows df))) = categories df"
  by (simp add: value_counts_set image_image)

lemma value_counts_length:
  "length (value_counts (map complaint_type (rows df))) = card (categories df)"
proof -
  have "length (value_counts (map complaint_type (rows df)))
          = length (map fst (value_counts (map complaint_type (rows df))))" by simp
  also have "\<dots> = card (set (map fst (value_counts (map complaint_type (rows df)))))"
    using value_counts_distinct by (rule distinct_card[symmetric])
  finally show ?thesis by (simp add: value_counts_fst)
qed

lemma isin_rows:
  "filter (\<lambda>r. isin (complaint_type r) tops) (rows df) = rows_of_types df (set tops)"
  by (simp add: rows_of_types_def isin_def)

lemma min_count_types:
  "set (map fst (filter (\<lambda>kc. int (snd kc) \<ge> m) (value_counts (map complaint_type (rows df)))))
     = {c \<in> categories df. m \<le> int (frequency df c)}"
  by (force simp: value_counts_set image_iff)

lemma rows_of_types_categories: "rows_of_types df (K \<inter> categories df) = rows_of_types df K"
  unfolding rows_of_types_def
proof (rule filter_cong[OF refl])
  fix r assume "r \<in> set (rows df)"
  then show "(case complaint_type r of None \<Rightarrow> False | Some c \<Rightarrow> c \<in> K \<inter> categories df)
           = (case complaint_type r of None \<Rightarrow> False | Some c \<Rightarrow> c \<in> K)"
    by (cases "complaint_type r") (auto simp: categories_def intro: rev_image_eqI)
qed

lemma select_min_count:
  "select_top_complaint_types df n_top (Some m)
     = Inr (df\<lparr>rows := rows_of_types df {c. m \<le> int (frequency df c)}\<rparr>)"
proof -
  have "select_top_complaint_types df n_top (Some m)
          = Inr (df\<lparr>rows := rows_of_types df {c \<in> categories df. m \<le> int (frequency df c)}\<rparr>)"
    by (simp add: select_top_complaint_types_def top_types_def Let_def isin_rows
                  min_count_types del: set_map set_filter)
  moreover have "{c \<in> categories df. m \<le> int (frequency df c)}
          = {c. m \<le> int (frequency df c)} \<inter> categories df" by auto
  ultimately show ?thesis by (simp only: rows_of_types_categories)
qed

lemma select_top_n:
  assumes "0 \<le> N"
  shows "\<exists>K. select_top_complaint_types df (Some N) None
                = Inr (df\<lparr>rows := rows_of_types df (set K)\<rparr>)
            \<and> distinct K \<and> set K \<subseteq> categories df
            \<and> length K = min (nat N) (card (categories df))
            \<and> (\<forall>a \<in> set K. \<forall>b \<in> categories df - set K. frequency df b \<le> frequency df a)"
proof -
  define vc where "vc = value_counts (map complaint_type (rows df))"
  define K where "K = map fst (take (nat N) vc)"
  have K: "K = take (nat N) (map fst vc)" by (simp add: K_def take_map)
  have sel: "select_top_complaint_types df (Some N) None
               = Inr (df\<lparr>rows := rows_of_types df (set K)\<rparr>)"
    using assms
    by (simp add: select_top_complaint_types_def top_types_def Let_def head_def isin_rows
                  K_def vc_def)
  have dist: "distinct K"
    unfolding K vc_def using value_counts_distinct by (rule distinct_take)
  have sub: "set K \<subseteq> categories df"
    using set_take_subset[of "nat N" "map fst vc"] value_counts_fst[of df]
    by (simp add: K vc_def)
  have len: "length K = min (nat N) (card (categories df))"
    by (simp add: K_def vc_def value_counts_length min.commute)
  have snd_freq: "snd (vc ! i) = frequency df (fst (vc ! i))" if "i < length vc" for i
  proof -
    have "vc ! i \<in> set vc" using that by simp
    then show ?thesis by (auto simp: vc_def value_counts_set)
  qed
  have ord: "frequency df b \<le> frequency df a"
    if a: "a \<in> set K" and b: "b \<in> categories df - set K" for a b
  proof -
    obtain i where i: "i < length K" "a = K ! i"
      using a by (auto simp: in_set_conv_nth)
    then have iN: "i < nat N" and il: "i < length vc" by (simp_all add: K_def)
    have ai: "a = fst (vc ! i)" using i iN il by (simp add: K_def)
    have "b \<in> set (map fst vc)" using b by (simp add: vc_def value_counts_fst)
    then obtain j where j: "j < length vc" "b = fst (vc ! j)"
      by (auto simp: in_set_conv_nth)
    have "\<not> j < nat N"
    proof
      assume "j < nat N"
      then have "K ! j = b" and "j < length K" using j by (simp_all add: K_def)
      then have "b \<in> set K" by (metis nth_mem)
      then show False using b by simp
    qed
    then have "i \<le> j" using iN by simp
    have "sorted (map (\<lambda>kc. - int (snd kc)) vc)"
      unfolding vc_def by (rule value_counts_sorted)
    then have "map (\<lambda>kc. - int (snd kc)) vc ! i \<le> map (\<lambda>kc. - int (snd kc)) vc ! j"
      using \<open>i \<le> j\<close> j(1) by (intro sorted_nth_mono) simp_all
    then have "snd (vc ! j) \<le> snd (vc ! i)" using il j(1) by simp
    then show ?thesis using snd_freq[OF il] snd_freq[OF j(1)] ai j(2) by simp
  qed
  from sel dist sub len ord show ?thesis by blast
qed

lemma complaint_table_top_2:
  "select_top_complaint_types complaint_table (Some 2) None
     = Inr (complaint_table\<lparr>rows := drop 15 (rows complaint_table)\<rparr>)"
  by code_simp

lemma select_example_counts:
  assumes cats: "categories df = {''A'', ''B'', ''C'', ''D''}"
    and fa: "frequency df ''A'' = 50" and fb: "frequency df ''B'' = 30"
    and fc: "frequency df ''C'' = 10" and fd: "frequency df ''D'' = 5"
  shows "select_top_complaint_types df (Some 2) None
           = Inr (df\<lparr>rows := rows_of_types df {''A'', ''B''}\<rparr>)"
proof -
  obtain K where sel: "select_top_complaint_types df (Some 2) None
                         = Inr (df\<lparr>rows := rows_of_types df (set K)\<rparr>)"
    and dist: "distinct K" and sub: "set K \<subseteq> categories df"
    and len: "length K = min (nat 2) (card (categories df))"
    and ord: "\<forall>a \<in> set K. \<forall>b \<in> categories df - set K. frequency df b \<le> frequency df a"
    using select_top_n[of 2 df] by auto
  have "card (categories df) = 4" using cats by simp
  then have len2: "length K = 2" using len by simp
  then have cardK: "card (set K) = 2" using dist by (simp add: distinct_card)
  have freq: "a = ''A'' \<or> a = ''B'' \<or> a = ''C'' \<or> a = ''D''" if "a \<in> set K" for a
    using that sub cats by auto
  have A: "''A'' \<in> set K"
  proof (rule ccontr)
    assume n: "''A'' \<notin> set K"
    obtain a where a: "a \<in> set K" using len2 by (cases K) auto
    have "''A'' \<in> categories df - set K" using n cats by simp
    then have "frequency df ''A'' \<le> frequency df a" using ord a by blast
    moreover have "a = ''B'' \<or> a = ''C'' \<or> a = ''D''" using freq[OF a] a n by auto
    ultimately show False using fa fb fc fd by auto
  qed
  have B: "''B'' \<in> set K"
  proof (rule ccontr)
    assume n: "''B'' \<notin> set K"
    have "a = ''A''" if a: "a \<in> set K" for a
    proof -
      have "''B'' \<in> categories df - set K" using n cats by simp
      then have "frequency df ''B'' \<le> frequency df a" using ord a by blast
      moreover have "a = ''A'' \<or> a = ''C'' \<or> a = ''D''" using freq[OF a] a n by auto
      ultimately show ?thesis using fb fc fd by auto
    qed
    then have "set K \<subseteq> {''A''}" by auto
    then have "card (set K) \<le> card {''A''}" by (intro card_mono) simp_all
    then show False using cardK by simp
  qed
  have "{''A'', ''B''} = set K"
  proof (rule card_subset_eq)
    show "finite (set K)" by simp
    show "{''A'', ''B''} \<subseteq> set K" using A B by simp
    show "card {''A'', ''B''} = card (set K)" using cardK by simp
  qed
  then show ?thesis using sel by simp
qed

lemma complaint_table_types:
  "map complaint_type (rows complaint_table)
     = replicate 5 (Some ''D'') @ replicate 10 (Some ''C'')
       @ replicate 30 (Some ''B'') @ replicate 50 (Some ''A'')"
  by code_simp

lemma complaint_table_categories: "categories complaint_table = {''A'', ''B'', ''C'', ''D''}"
  unfolding categories_def complaint_table_types by auto

lemma complaint_table_frequency:
  "frequency complaint_table ''A'' = 50" "frequency complaint_table ''B'' = 30"
  "frequency complaint_table ''C'' = 10" "frequency complaint_table ''D'' = 5"
  by code_simp+

lemma complaint_table_rows_AB:
  "rows_of_types complaint_table {''A'', ''B''} = drop 15 (rows complaint_table)"
  by code_simp

lemma complaint_table_min_30:
  "rows_of_types complaint_table {c. 30 \<le> int (frequency complaint_table c)}
     = drop 15 (rows complaint_table)"
proof -
  have "{c. 30 \<le> int (frequency complaint_table c)} \<inter> categories complaint_table = {''A'', ''B''}"
    unfolding complaint_table_categories using complaint_table_frequency by auto
  then show ?thesis
    using rows_of_types_categories[of complaint_table "{c. 30 \<le> int (frequency complaint_table c)}"]
      complaint_table_rows_AB by simp
qed

text \<open>
  Claim C8.  Stage 7 given a minimum count keeps the rows of every complaint type that
  occurs at least that often and removes all other rows, whatever the number of top types
  it is given.  Given no minimum count and a number \<open>N \<ge> 0\<close> of top types, it keeps the
  rows of \<open>N\<close> complaint types (of all of them when the table has fewer than \<open>N\<close>), and
  every type it keeps occurs at least as often as every type it removes.  In a table whose
  complaint types are A, B, C and D with 50, 30, 10 and 5 rows, the two top types leave
  the rows of type A or B only.  The driver given neither a number of top types nor a
  minimum count returns what stage 6 returns.
\<close>

theorem select_top_complaint_types_keeps:
  "select_top_complaint_types df n_top (Some m)
     = Inr (df\<lparr>rows := rows_of_types df {c. m \<le> int (frequency df c)}\<rparr>)
   \<and> (0 \<le> N \<longrightarrow>
        (\<exists>K. select_top_complaint_types df (Some N) None
                = Inr (df\<lparr>rows := rows_of_types df (set K)\<rparr>)
            \<and> distinct K \<and> set K \<subseteq> categories df
            \<and> length K = min (nat N) (card (categories df))
            \<and> (\<forall>a \<in> set K. \<forall>b \<in> categories df - set K.
                  frequency df b \<le> frequency df a)))
   \<and> (categories df = {''A'', ''B'', ''C'', ''D''}
        \<and> frequency df ''A'' = 50 \<and> frequency df ''B'' = 30
        \<and> frequency df ''C'' = 10 \<and> frequency df ''D'' = 5 \<longrightarrow>
        select_top_complaint_types df (Some 2) None
          = Inr (df\<lparr>rows := rows_of_types df {''A'', ''B''}\<rparr>))
   \<and> clean_nyc311_data parse raw percentile None None
       = winsorize_response_time
           (remove_duplicates
              (standardize_channel_type
                 (filter_invalid_rows
                    (compute_response_time (convert_dates_to_datetime parse raw))
                    True True True))
              unique_key)
           percentile"
proof -
  have "clean_nyc311_data parse raw percentile None None
       = winsorize_response_time
           (remove_duplicates
              (standardize_channel_type
                 (filter_invalid_rows
                    (compute_response_time (convert_dates_to_datetime parse raw))
                    True True True))
              unique_key)
           percentile"
    by (simp add: clean_nyc311_data_def Let_def split: sum.splits)
  then show ?thesis
    using select_min_count[of df n_top m] select_top_n[of N df] select_example_counts[of df]
    by blast
qed

theorem select_top_complaint_types_keeps_witness:
  "(0::int) \<le> 2
   \<and> categories complaint_table = {''A'', ''B'', ''C'', ''D''}
   \<and> frequency complaint_table ''A'' = 50 \<and> frequency complaint_table ''B'' = 30
   \<and> frequency complaint_table ''C'' = 10 \<and> frequency complaint_table ''D'' = 5
   \<and> select_top_complaint_types complaint_table (Some 2) None
       = Inr (complaint_table\<lparr>rows := drop 15 (rows complaint_table)\<rparr>)
   \<and> select_top_complaint_types complaint_table (Some 2) (Some 30)
       = Inr (complaint_table\<lparr>rows := drop 15 (rows complaint_table)\<rparr>)
   \<and> map complaint_type (drop 15 (rows complaint_table))
       = replicate 30 (Some ''B'') @ replicate 50 (Some ''A'')"
proof -
  note hyps = complaint_table_categories complaint_table_frequency
  have "select_top_complaint_types complaint_table (Some 2) None
          = Inr (complaint_table\<lparr>rows := rows_of_types complaint_table {''A'', ''B''}\<rparr>)"
    and "select_top_complaint_types complaint_table (Some 2) (Some 30)
          = Inr (complaint_table\<lparr>rows :=
                   rows_of_types complaint_table {c. 30 \<le> int (frequency complaint_table c)}\<rparr>)"
    using select_top_complaint_types_keeps[where df = complaint_table and n_top = "Some 2"
        and m = 30 and N = 2] hyps
    by blast+
  moreover have "map complaint_type (drop 15 (rows complaint_table))
       = replicate 30 (Some ''B'') @ replicate 50 (Some ''A'')"
    by (simp add: drop_map[symmetric] complaint_table_types)
  ultimately show ?thesis
    using hyps by (simp only: complaint_table_rows_AB complaint_table_min_30) simp
qed

end
